theory Spec2Isabelle
  imports Complex_Main
begin

section \<open>Values, documents and tables\<close>

text \<open>
  The notebook \<^verbatim>\<open>Project_EnergyData.ipynb\<close> moves data between CSV files, a MongoDB
  collection and pandas tables, scales six feature columns, scores three regressors and
  shows the scores on a Dash page. Its cells are embedded as functions on explicit
  state: a collection is passed in and returned, the variables a cell leaves behind are
  the fields of the record it returns, and a result \<open>Inl e\<close> stands for a call that
  raised \<open>e\<close> and changed nothing.

  A Python float is one of a finite number (a real), the two infinities and NaN. A
  table cell is an ObjectId, a string, a float or \<^verbatim>\<open>None\<close>.
\<close>

datatype fl = Fin real | PInf | NInf | NaN

datatype cell = ObjectId nat | Str string | Num fl | PyNone

datatype error =
  KeyError | TypeError | ValueError | IndexError | OverflowError | FileNotFoundError
  | NotFittedError

text \<open>pandas' \<^verbatim>\<open>isna\<close>: \<^verbatim>\<open>None\<close> and NaN are the missing values.\<close>

fun isna :: "cell \<Rightarrow> bool" where
  "isna PyNone = True"
| "isna (Num NaN) = True"
| "isna _ = False"

text \<open>A document (a Python dict) keeps its keys in insertion order.\<close>

type_synonym doc = "(string \<times> cell) list"

text \<open>A collection is the list of its stored documents, in insertion order.\<close>

type_synonym collection = "doc list"

text \<open>
  A \<^verbatim>\<open>DataFrame\<close>: the length of its index and its columns, in order, each a name with
  its cells.
\<close>

record dataframe =
  nrows :: nat
  cols :: "(string \<times> cell list) list"

definition colnames :: "dataframe \<Rightarrow> string list" where
  "colnames df = map fst (cols df)"

text \<open>Every column of a table has one cell for each row, and column names differ.\<close>

definition wf_df :: "dataframe \<Rightarrow> bool" where
  "wf_df df \<longleftrightarrow>
     distinct (colnames df) \<and> list_all (\<lambda>c. length (snd c) = nrows df) (cols df)"

section \<open>Ingestion\<close>

text \<open>
  \<^verbatim>\<open>columns = ['dtm', 'MIP', 'Solar_MW', 'Solar_capacity_mwp',
     'Solar_installedcapacity_mwp', 'SS_Price', 'boa_MWh', 'DA_Price']\<close>
\<close>

definition columns :: "string list" where
  "columns = [''dtm'', ''MIP'', ''Solar_MW'', ''Solar_capacity_mwp'',
     ''Solar_installedcapacity_mwp'', ''SS_Price'', ''boa_MWh'', ''DA_Price'']"

text \<open>
  \<^verbatim>\<open>pd.read_csv(file_path)\<close>: the file system maps a path to the table parsed from the
  file there; a missing file raises.
\<close>

definition read_csv :: "(string \<rightharpoonup> dataframe) \<Rightarrow> string \<Rightarrow> error + dataframe" where
  "read_csv fs file_path =
     (case fs file_path of None \<Rightarrow> Inl FileNotFoundError | Some df \<Rightarrow> Inr df)"

text \<open>
  \<^verbatim>\<open>df[names]\<close> with a list of names: the named columns in the order of the list; a
  name that is not a column raises \<^verbatim>\<open>KeyError\<close>.
\<close>

fun lookup_cols ::
  "(string \<times> cell list) list \<Rightarrow> string list \<Rightarrow> error + (string \<times> cell list) list" where
  "lookup_cols cs [] = Inr []"
| "lookup_cols cs (n # ns) =
     (case map_of cs n of
        None \<Rightarrow> Inl KeyError
      | Some xs \<Rightarrow>
          (case lookup_cols cs ns of
             Inl e \<Rightarrow> Inl e
           | Inr r \<Rightarrow> Inr ((n, xs) # r)))"

definition getitem :: "dataframe \<Rightarrow> string list \<Rightarrow> error + dataframe" where
  "getitem df names =
     (case lookup_cols (cols df) names of
        Inl e \<Rightarrow> Inl e
      | Inr cs \<Rightarrow> Inr \<lparr>nrows = nrows df, cols = cs\<rparr>)"

text \<open>\<^verbatim>\<open>df[name]\<close> with one name: that column as a series.\<close>

definition getitem_col :: "dataframe \<Rightarrow> string \<Rightarrow> error + cell list" where
  "getitem_col df n =
     (case map_of (cols df) n of None \<Rightarrow> Inl KeyError | Some xs \<Rightarrow> Inr xs)"

text \<open>\<^verbatim>\<open>df.to_dict('records')\<close>: one dict per row, keyed by the column names.\<close>

definition to_dict_records :: "dataframe \<Rightarrow> doc list" where
  "to_dict_records df =
     map (\<lambda>i. map (\<lambda>c. (fst c, snd c ! i)) (cols df)) [0..<nrows df]"

text \<open>
  \<^verbatim>\<open>collection.insert_many(records)\<close>: an empty list raises \<^verbatim>\<open>TypeError\<close>; otherwise
  every document is appended to the collection, and a document with no \<^verbatim>\<open>_id\<close> key
  gets a fresh ObjectId under that key, stored first.
\<close>

definition with_id :: "nat \<Rightarrow> doc \<Rightarrow> doc" where
  "with_id n d =
     (if ''_id'' \<in> set (map fst d) then d else (''_id'', ObjectId n) # d)"

definition insert_many :: "doc list \<Rightarrow> collection \<Rightarrow> error + collection" where
  "insert_many records coll =
     (if records = [] then Inl TypeError
      else Inr (coll @
        map (\<lambda>i. with_id (length coll + i) (records ! i)) [0..<length records]))"

text \<open>
  \<^verbatim>\<open>def import_csv_data(file_path, required_columns, collection):
      df = pd.read_csv(file_path)
      df = df[required_columns]
      records = df.to_dict('records')
      collection.insert_many(records)\<close>
  The result is the collection after the call.
\<close>

definition import_csv_data ::
  "(string \<rightharpoonup> dataframe) \<Rightarrow> string \<Rightarrow> string list \<Rightarrow> collection \<Rightarrow> error + collection" where
  "import_csv_data fs file_path required_columns coll =
     (case read_csv fs file_path of
        Inl e \<Rightarrow> Inl e
      | Inr df \<Rightarrow>
          (case getitem df required_columns of
             Inl e \<Rightarrow> Inl e
           | Inr df' \<Rightarrow> insert_many (to_dict_records df') coll))"

section \<open>Retrieval and cleaning\<close>

text \<open>\<^verbatim>\<open>list(collection.find())\<close>: every stored document.\<close>

definition find_docs :: "collection \<Rightarrow> doc list" where
  "find_docs coll = coll"

text \<open>
  \<^verbatim>\<open>pd.DataFrame(docs)\<close> on a list of dicts: one row per dict; the columns are the keys
  in the order they are first seen; a key a dict lacks is NaN in its row.
\<close>

fun first_seen :: "string list \<Rightarrow> string list \<Rightarrow> string list" where
  "first_seen acc [] = acc"
| "first_seen acc (k # ks) = first_seen (if k \<in> set acc then acc else acc @ [k]) ks"

definition cell_of :: "string \<Rightarrow> doc \<Rightarrow> cell" where
  "cell_of k d = (case map_of d k of None \<Rightarrow> Num NaN | Some v \<Rightarrow> v)"

definition DataFrame :: "doc list \<Rightarrow> dataframe" where
  "DataFrame docs =
     \<lparr>nrows = length docs,
      cols = map (\<lambda>k. (k, map (cell_of k) docs)) (first_seen [] (concat (map (map fst) docs)))\<rparr>"

text \<open>\<^verbatim>\<open>df.drop(name, axis=1)\<close>: a name that is not a column raises \<^verbatim>\<open>KeyError\<close>.\<close>

definition drop_col :: "string \<Rightarrow> dataframe \<Rightarrow> error + dataframe" where
  "drop_col n df =
     (if n \<in> set (colnames df)
      then Inr (df\<lparr>cols := filter (\<lambda>c. fst c \<noteq> n) (cols df)\<rparr>)
      else Inl KeyError)"

text \<open>
  \<^verbatim>\<open>df.fillna(method='ffill')\<close>: each column is padded on its own, top to bottom,
  carrying the last valid cell seen so far; a missing cell takes the carried cell when
  there is one.
\<close>

fun pad :: "cell option \<Rightarrow> cell list \<Rightarrow> cell list" where
  "pad carry [] = []"
| "pad carry (x # xs) =
     (if isna x
      then (case carry of None \<Rightarrow> x | Some v \<Rightarrow> v) # pad carry xs
      else x # pad (Some x) xs)"

definition ffill :: "cell list \<Rightarrow> cell list" where
  "ffill xs = pad None xs"

definition fillna_ffill :: "dataframe \<Rightarrow> dataframe" where
  "fillna_ffill df = df\<lparr>cols := map (\<lambda>c. (fst c, ffill (snd c))) (cols df)\<rparr>"

text \<open>
  \<^verbatim>\<open>data = pd.DataFrame(list(collection.find()))
  data.drop('_id', axis=1, inplace=True)
  data.fillna(method='ffill', inplace=True)\<close>
\<close>

definition retrieve :: "collection \<Rightarrow> dataframe" where
  "retrieve coll = DataFrame (find_docs coll)"

definition clean :: "dataframe \<Rightarrow> error + dataframe" where
  "clean df =
     (case drop_col ''_id'' df of
        Inl e \<Rightarrow> Inl e
      | Inr df' \<Rightarrow> Inr (fillna_ffill df'))"

section \<open>Double-precision arithmetic\<close>

text \<open>
  Rounding to the nearest double (IEEE 754 binary64, ties to even). \<open>expo x\<close> is the
  exponent of the binade of \<open>x\<close>, held at \<open>-1022\<close> in the subnormal range; \<open>ulp x\<close> is
  the spacing of the doubles there; \<open>rne\<close> rounds a real to the nearest integer, a tie
  to the even one; \<open>rd x\<close> is the double nearest to \<open>x\<close>, an infinity when that would
  reach \<open>2 ^ 1024\<close>. The sign of a zero is not modelled.
\<close>

definition expo :: "real \<Rightarrow> int" where
  "expo x = (if x = 0 then - 1022 else max \<lfloor>log 2 \<bar>x\<bar>\<rfloor> (- 1022))"

definition ulp :: "real \<Rightarrow> real" where
  "ulp x = 2 powr (of_int (expo x) - 52)"

definition rne :: "real \<Rightarrow> int" where
  "rne x =
     (if x - of_int \<lfloor>x\<rfloor> < 1 / 2 then \<lfloor>x\<rfloor>
      else if 1 / 2 < x - of_int \<lfloor>x\<rfloor> then \<lfloor>x\<rfloor> + 1
      else if even \<lfloor>x\<rfloor> then \<lfloor>x\<rfloor> else \<lfloor>x\<rfloor> + 1)"

definition rd :: "real \<Rightarrow> fl" where
  "rd x =
     (if 2 ^ 1024 \<le> \<bar>of_int (rne (x / ulp x)) * ulp x\<bar>
      then (if 0 < x then PInf else NInf)
      else Fin (of_int (rne (x / ulp x)) * ulp x))"

text \<open>
  Arithmetic on the special values, as IEEE 754 and numpy have it. These four
  operations keep a finite result as the exact real; they serve where only the class of
  the result (finite, infinite, NaN) is at stake.
\<close>

fun fsub :: "fl \<Rightarrow> fl \<Rightarrow> fl" where
  "fsub (Fin a) (Fin b) = Fin (a - b)"
| "fsub NaN b = NaN"
| "fsub a NaN = NaN"
| "fsub PInf PInf = NaN"
| "fsub NInf NInf = NaN"
| "fsub PInf b = PInf"
| "fsub NInf b = NInf"
| "fsub (Fin a) PInf = NInf"
| "fsub (Fin a) NInf = PInf"

fun fadd :: "fl \<Rightarrow> fl \<Rightarrow> fl" where
  "fadd (Fin a) (Fin b) = Fin (a + b)"
| "fadd NaN b = NaN"
| "fadd a NaN = NaN"
| "fadd PInf NInf = NaN"
| "fadd NInf PInf = NaN"
| "fadd PInf b = PInf"
| "fadd NInf b = NInf"
| "fadd (Fin a) PInf = PInf"
| "fadd (Fin a) NInf = NInf"

text \<open>
  Division: a nonzero number over zero is an infinity, zero over zero is NaN. (The
  sign of a zero is not modelled; the only quotient used below goes through \<open>fabs\<close>.)
\<close>

fun fdiv :: "fl \<Rightarrow> fl \<Rightarrow> fl" where
  "fdiv (Fin a) (Fin b) =
     (if b = 0 then (if a = 0 then NaN else if 0 < a then PInf else NInf)
      else Fin (a / b))"
| "fdiv NaN b = NaN"
| "fdiv a NaN = NaN"
| "fdiv (Fin a) b = Fin 0"
| "fdiv PInf (Fin b) = (if 0 \<le> b then PInf else NInf)"
| "fdiv NInf (Fin b) = (if 0 \<le> b then NInf else PInf)"
| "fdiv a b = NaN"

fun fmul :: "fl \<Rightarrow> fl \<Rightarrow> fl" where
  "fmul (Fin a) (Fin b) = Fin (a * b)"
| "fmul NaN b = NaN"
| "fmul a NaN = NaN"
| "fmul (Fin a) PInf = (if a = 0 then NaN else if 0 < a then PInf else NInf)"
| "fmul (Fin a) NInf = (if a = 0 then NaN else if 0 < a then NInf else PInf)"
| "fmul PInf (Fin b) = (if b = 0 then NaN else if 0 < b then PInf else NInf)"
| "fmul NInf (Fin b) = (if b = 0 then NaN else if 0 < b then NInf else PInf)"
| "fmul PInf PInf = PInf"
| "fmul NInf NInf = PInf"
| "fmul a b = NInf"

fun fabs :: "fl \<Rightarrow> fl" where
  "fabs (Fin a) = Fin \<bar>a\<bar>"
| "fabs NaN = NaN"
| "fabs a = PInf"

fun is_finite :: "fl \<Rightarrow> bool" where
  "is_finite (Fin a) = True"
| "is_finite a = False"

text \<open>
  The same operations with the finite result rounded to a double, as the hardware
  gives it.
\<close>

fun rsub :: "fl \<Rightarrow> fl \<Rightarrow> fl" where
  "rsub (Fin a) (Fin b) = rd (a - b)"
| "rsub a b = fsub a b"

fun radd :: "fl \<Rightarrow> fl \<Rightarrow> fl" where
  "radd (Fin a) (Fin b) = rd (a + b)"
| "radd a b = fadd a b"

fun rmul :: "fl \<Rightarrow> fl \<Rightarrow> fl" where
  "rmul (Fin a) (Fin b) = rd (a * b)"
| "rmul a b = fmul a b"

fun rdiv :: "fl \<Rightarrow> fl \<Rightarrow> fl" where
  "rdiv (Fin a) (Fin b) = (if b = 0 then fdiv (Fin a) (Fin b) else rd (a / b))"
| "rdiv a b = fdiv a b"

text \<open>A float that is zero, positive or plus infinity.\<close>

fun nonneg_fl :: "fl \<Rightarrow> bool" where
  "nonneg_fl (Fin a) = (0 \<le> a)"
| "nonneg_fl PInf = True"
| "nonneg_fl a = False"

section \<open>Training\<close>

text \<open>
  \<^verbatim>\<open>features = ['MIP', 'Solar_capacity_mwp', 'Solar_installedcapacity_mwp', 'SS_Price',
     'boa_MWh', 'DA_Price']
  target = 'Solar_MW'\<close>
\<close>

definition features :: "string list" where
  "features = [''MIP'', ''Solar_capacity_mwp'', ''Solar_installedcapacity_mwp'',
     ''SS_Price'', ''boa_MWh'', ''DA_Price'']"

definition target :: string where
  "target = ''Solar_MW''"

text \<open>The keys of the \<^verbatim>\<open>models\<close> dict, in insertion order.\<close>

definition model_names :: "string list" where
  "model_names = [''lr'', ''rf'', ''svm'']"

text \<open>
  The numerical routines of scikit-learn and numpy whose results the notebook's text
  does not determine are parameters of the embedding:
  \<^item> \<open>permutation n\<close>: the shuffled row positions \<^verbatim>\<open>RandomState(42).permutation(n)\<close>
    that \<^verbatim>\<open>train_test_split(..., random_state=42)\<close> draws for a table of \<open>n\<close> rows;
  \<^item> \<open>sc_fit X\<close>: the statistics (per-column mean and standard deviation) a
    \<^verbatim>\<open>StandardScaler\<close> learns from the table \<open>X\<close>;
  \<^item> \<open>sc_apply p X\<close>: the table \<open>X\<close> standardized with the statistics \<open>p\<close>;
  \<^item> \<open>predict name Z\<close>: \<^verbatim>\<open>models[name].predict(Z)\<close> for the regressor stored under
    \<open>name\<close> once the fitting loop has run. The fitting itself is not embedded: a
    \<^verbatim>\<open>RandomForestRegressor()\<close> built with no \<^verbatim>\<open>random_state\<close> draws from the
    process-wide random generator, so its fitted state is no function of the data.
\<close>

record 'p sklearn =
  permutation :: "nat \<Rightarrow> nat list"
  sc_fit :: "dataframe \<Rightarrow> error + 'p"
  sc_apply :: "'p \<Rightarrow> dataframe \<Rightarrow> error + fl list list"
  predict :: "string \<Rightarrow> fl list list \<Rightarrow> error + fl list"

text \<open>Selecting rows by position; a position outside the table raises.\<close>

definition take_cells :: "cell list \<Rightarrow> nat list \<Rightarrow> error + cell list" where
  "take_cells xs idx =
     (if list_all (\<lambda>i. i < length xs) idx then Inr (map (\<lambda>i. xs ! i) idx)
      else Inl IndexError)"

definition take_rows :: "dataframe \<Rightarrow> nat list \<Rightarrow> error + dataframe" where
  "take_rows df idx =
     (if list_all (\<lambda>i. i < nrows df) idx
      then Inr \<lparr>nrows = length idx,
                cols = map (\<lambda>c. (fst c, map (\<lambda>i. snd c ! i) idx)) (cols df)\<rparr>
      else Inl IndexError)"

text \<open>
  \<^verbatim>\<open>test_size=0.2\<close>: the double nearest to one fifth.
\<close>

definition test_size :: real where
  "test_size = 3602879701896397 / 18014398509481984"

text \<open>
  The size of the held-out part, \<^verbatim>\<open>ceil(test_size * n_samples)\<close>: the row count
  becomes a double, the product is rounded, and the ceiling is taken.
\<close>

definition n_test_of :: "nat \<Rightarrow> error + nat" where
  "n_test_of n =
     (case rmul (Fin test_size) (rd (real n)) of
        Fin y \<Rightarrow> Inr (nat \<lceil>y\<rceil>)
      | _ \<Rightarrow> Inl OverflowError)"

text \<open>
  The held-out positions are the first \<open>n_test\<close> entries of the permutation, the
  training positions the \<open>n_train\<close> entries after them.
\<close>

definition valid_idx :: "'p sklearn \<Rightarrow> nat \<Rightarrow> nat \<Rightarrow> nat list" where
  "valid_idx lib n n_test = take n_test (permutation lib n)"

definition train_idx :: "'p sklearn \<Rightarrow> nat \<Rightarrow> nat \<Rightarrow> nat list" where
  "train_idx lib n n_test = take (n - n_test) (drop n_test (permutation lib n))"

text \<open>
  \<^verbatim>\<open>X_train_split, X_valid_split, y_train_split, y_valid_split =
       train_test_split(X_train, y_train, test_size=0.2, random_state=42)\<close>
  The two inputs must have one length; the training part is all rows that are not
  held out, and an empty training part raises.
\<close>

definition train_test_split ::
  "'p sklearn \<Rightarrow> dataframe \<Rightarrow> cell list \<Rightarrow>
     error + (dataframe \<times> dataframe \<times> cell list \<times> cell list)" where
  "train_test_split lib X y =
     (if length y \<noteq> nrows X then Inl ValueError
      else
     (case n_test_of (nrows X) of
        Inl e \<Rightarrow> Inl e
      | Inr n_test \<Rightarrow>
          if nrows X - n_test = 0 then Inl ValueError
          else
     (case take_rows X (train_idx lib (nrows X) n_test) of
        Inl e \<Rightarrow> Inl e
      | Inr X_tr \<Rightarrow>
     (case take_rows X (valid_idx lib (nrows X) n_test) of
        Inl e \<Rightarrow> Inl e
      | Inr X_va \<Rightarrow>
     (case take_cells y (train_idx lib (nrows X) n_test) of
        Inl e \<Rightarrow> Inl e
      | Inr y_tr \<Rightarrow>
     (case take_cells y (valid_idx lib (nrows X) n_test) of
        Inl e \<Rightarrow> Inl e
      | Inr y_va \<Rightarrow> Inr (X_tr, X_va, y_tr, y_va)))))))"

text \<open>
  The scaler object: its learned statistics (none before the first fit), and the
  calls made on it so far, each with the table it was given.
\<close>

datatype call = Fit_transform dataframe | Transform dataframe

fun is_fit :: "call \<Rightarrow> bool" where
  "is_fit (Fit_transform X) = True"
| "is_fit (Transform X) = False"

fun call_arg :: "call \<Rightarrow> dataframe" where
  "call_arg (Fit_transform X) = X"
| "call_arg (Transform X) = X"

record 'p scaler_obj =
  stats :: "'p option"
  calls :: "call list"

definition StandardScaler :: "'p scaler_obj" where
  "StandardScaler = \<lparr>stats = None, calls = []\<rparr>"

text \<open>
  \<^verbatim>\<open>scaler.fit_transform(X)\<close> learns the statistics of \<open>X\<close>, stores them, and applies
  them to \<open>X\<close>.
\<close>

definition fit_transform ::
  "'p sklearn \<Rightarrow> dataframe \<Rightarrow> 'p scaler_obj \<Rightarrow> error + ('p scaler_obj \<times> fl list list)" where
  "fit_transform lib X sc =
     (case sc_fit lib X of
        Inl e \<Rightarrow> Inl e
      | Inr p \<Rightarrow>
          (case sc_apply lib p X of
             Inl e \<Rightarrow> Inl e
           | Inr Z \<Rightarrow> Inr (sc\<lparr>stats := Some p, calls := calls sc @ [Fit_transform X]\<rparr>, Z)))"

text \<open>\<^verbatim>\<open>scaler.transform(X)\<close> applies the stored statistics; an unfitted scaler raises.\<close>

definition transform ::
  "'p sklearn \<Rightarrow> dataframe \<Rightarrow> 'p scaler_obj \<Rightarrow> error + ('p scaler_obj \<times> fl list list)" where
  "transform lib X sc =
     (case stats sc of
        None \<Rightarrow> Inl NotFittedError
      | Some p \<Rightarrow>
          (case sc_apply lib p X of
             Inl e \<Rightarrow> Inl e
           | Inr Z \<Rightarrow> Inr (sc\<lparr>calls := calls sc @ [Transform X]\<rparr>, Z)))"

text \<open>
  The training cell, up to the fitting loop; the result holds the variables the cell
  leaves behind.
  \<^verbatim>\<open>X_train = data_train[features]
  y_train = data_train[target]
  X_train_split, X_valid_split, y_train_split, y_valid_split = train_test_split(...)
  scaler = StandardScaler()
  X_train_scaled = scaler.fit_transform(X_train_split)
  X_valid_scaled = scaler.transform(X_valid_split)\<close>
\<close>

record 'p trained =
  scaler :: "'p scaler_obj"
  X_train_split :: dataframe
  X_valid_split :: dataframe
  y_train_split :: "cell list"
  X_train_scaled :: "fl list list"
  X_valid_scaled :: "fl list list"

definition train :: "'p sklearn \<Rightarrow> dataframe \<Rightarrow> error + 'p trained" where
  "train lib data_train =
     (case getitem data_train features of
        Inl e \<Rightarrow> Inl e
      | Inr X_train \<Rightarrow>
     (case getitem_col data_train target of
        Inl e \<Rightarrow> Inl e
      | Inr y_train \<Rightarrow>
     (case train_test_split lib X_train y_train of
        Inl e \<Rightarrow> Inl e
      | Inr (X_tr, X_va, y_tr, y_va) \<Rightarrow>
     (case fit_transform lib X_tr StandardScaler of
        Inl e \<Rightarrow> Inl e
      | Inr (sc1, Z_tr) \<Rightarrow>
     (case transform lib X_va sc1 of
        Inl e \<Rightarrow> Inl e
      | Inr (sc2, Z_va) \<Rightarrow>
          Inr \<lparr>scaler = sc2, X_train_split = X_tr, X_valid_split = X_va,
               y_train_split = y_tr, X_train_scaled = Z_tr, X_valid_scaled = Z_va\<rparr>)))))"

section \<open>Evaluation\<close>

text \<open>A numeric column as floats: \<^verbatim>\<open>None\<close> reads as NaN, other cells do not convert.\<close>

fun to_floats :: "cell list \<Rightarrow> error + fl list" where
  "to_floats [] = Inr []"
| "to_floats (Num v # xs) =
     (case to_floats xs of Inl e \<Rightarrow> Inl e | Inr vs \<Rightarrow> Inr (v # vs))"
| "to_floats (PyNone # xs) =
     (case to_floats xs of Inl e \<Rightarrow> Inl e | Inr vs \<Rightarrow> Inr (NaN # vs))"
| "to_floats (c # xs) = Inl ValueError"

text \<open>The finite numbers of a list; scikit-learn's input check raises on NaN and infinity.\<close>

fun fin_vals :: "fl list \<Rightarrow> error + real list" where
  "fin_vals [] = Inr []"
| "fin_vals (Fin a # xs) =
     (case fin_vals xs of Inl e \<Rightarrow> Inl e | Inr rs \<Rightarrow> Inr (a # rs))"
| "fin_vals (v # xs) = Inl ValueError"

text \<open>
  numpy adds up a double array pairwise: fewer than eight numbers one after the other;
  up to 128 numbers in eight running sums that take every eighth number each and are
  added as a balanced tree, with the last \<open>n mod 8\<close> numbers added after that; a
  longer array in two parts, the first of a length that is a multiple of eight.
\<close>

definition sum8 :: "fl list \<Rightarrow> fl" where
  "sum8 r =
     radd (radd (radd (r ! 0) (r ! 1)) (radd (r ! 2) (r ! 3)))
          (radd (radd (r ! 4) (r ! 5)) (radd (r ! 6) (r ! 7)))"

function unroll8 :: "fl list \<Rightarrow> fl list \<Rightarrow> fl list \<times> fl list" where
  "unroll8 r xs =
     (if length xs < 8 then (r, xs)
      else unroll8 (map (\<lambda>ab. radd (fst ab) (snd ab)) (zip r (take 8 xs))) (drop 8 xs))"
  by pat_completeness auto
termination
  by (relation "measure (\<lambda>(r, xs). length xs)") auto

function pairwise_sum :: "fl list \<Rightarrow> fl" where
  "pairwise_sum xs =
     (if length xs < 8 then foldl radd (Fin 0) xs
      else if length xs \<le> 128
      then foldl radd (sum8 (fst (unroll8 (take 8 xs) (drop 8 xs))))
             (snd (unroll8 (take 8 xs) (drop 8 xs)))
      else radd
        (pairwise_sum (take (length xs div 2 - length xs div 2 mod 8) xs))
        (pairwise_sum (drop (length xs div 2 - length xs div 2 mod 8) xs)))"
  by pat_completeness auto
termination
  by (relation "measure length") auto

text \<open>The squared difference of one row, \<^verbatim>\<open>(y_true - y_pred) ** 2\<close>.\<close>

definition sq_err :: "fl \<times> fl \<Rightarrow> fl" where
  "sq_err ap = rmul (rsub (fst ap) (snd ap)) (rsub (fst ap) (snd ap))"

text \<open>
  \<^verbatim>\<open>mean_squared_error(y_true, y_pred)\<close>: both inputs are checked (numeric, finite, of
  one length, not empty); the result is the mean of the squared differences in double
  arithmetic: their pairwise sum over their number. (Averaging the single output
  column afterwards leaves the value as it is.)
\<close>

definition mean_squared_error :: "cell list \<Rightarrow> fl list \<Rightarrow> error + fl" where
  "mean_squared_error y_true y_pred =
     (case to_floats y_true of
        Inl e \<Rightarrow> Inl e
      | Inr ys \<Rightarrow>
     (case fin_vals ys of
        Inl e \<Rightarrow> Inl e
      | Inr a \<Rightarrow>
     (case fin_vals y_pred of
        Inl e \<Rightarrow> Inl e
      | Inr p \<Rightarrow>
          if length a \<noteq> length p \<or> a = [] then Inl ValueError
          else Inr (rdiv (pairwise_sum (map sq_err (zip ys y_pred)))
                         (Fin (real (length ys)))))))"

text \<open>
  \<^verbatim>\<open>math.sqrt\<close>: the double nearest to the square root; a negative argument raises.
\<close>

fun msqrt :: "fl \<Rightarrow> error + fl" where
  "msqrt (Fin a) = (if a < 0 then Inl ValueError else Inr (rd (sqrt a)))"
| "msqrt PInf = Inr PInf"
| "msqrt NInf = Inl ValueError"
| "msqrt NaN = Inr NaN"

text \<open>
  \<^verbatim>\<open>np.mean\<close> on a pandas \<^verbatim>\<open>Series\<close> calls the series' own \<^verbatim>\<open>mean\<close>, which skips NaN
  (\<^verbatim>\<open>skipna=True\<close>): the sum of the entries that are not NaN over their number, and NaN
  when there is none. Infinities are not skipped.
\<close>

definition series_mean :: "fl list \<Rightarrow> fl" where
  "series_mean xs =
     (let vals = filter (\<lambda>v. v \<noteq> NaN) xs
      in if vals = [] then NaN else fdiv (foldl fadd (Fin 0) vals) (Fin (real (length vals))))"

text \<open>
  \<^verbatim>\<open>mape = np.mean(np.abs((y_test - preds) / y_test)) * 100\<close>, with \<^verbatim>\<open>y_test\<close> a series
  and \<^verbatim>\<open>preds\<close> an array: the arithmetic is elementwise.
\<close>

definition ape :: "fl \<Rightarrow> fl \<Rightarrow> fl" where
  "ape actual pred = fabs (fdiv (fsub actual pred) actual)"

definition mape_of :: "cell list \<Rightarrow> fl list \<Rightarrow> error + fl" where
  "mape_of y_test preds =
     (case to_floats y_test of
        Inl e \<Rightarrow> Inl e
      | Inr ys \<Rightarrow>
          if length ys \<noteq> length preds then Inl ValueError
          else Inr (fmul (series_mean (map (\<lambda>ap. ape (fst ap) (snd ap)) (zip ys preds)))
                         (Fin 100)))"

record metrics =
  RMSE :: fl
  MSE :: fl
  MAPE :: fl

text \<open>
  The body of the metrics loop, for one model:
  \<^verbatim>\<open>rmse = math.sqrt(mean_squared_error(y_test, preds))
  mse = mean_squared_error(y_test, preds)
  mape = np.mean(np.abs((y_test - preds) / y_test)) * 100
  results[model_name] = {'RMSE': rmse, 'MSE': mse, 'MAPE': mape}\<close>
\<close>

definition metrics_of :: "cell list \<Rightarrow> fl list \<Rightarrow> error + metrics" where
  "metrics_of y_test preds =
     (case mean_squared_error y_test preds of
        Inl e \<Rightarrow> Inl e
      | Inr m1 \<Rightarrow>
     (case msqrt m1 of
        Inl e \<Rightarrow> Inl e
      | Inr rmse \<Rightarrow>
     (case mean_squared_error y_test preds of
        Inl e \<Rightarrow> Inl e
      | Inr mse \<Rightarrow>
     (case mape_of y_test preds of
        Inl e \<Rightarrow> Inl e
      | Inr mape \<Rightarrow> Inr \<lparr>RMSE = rmse, MSE = mse, MAPE = mape\<rparr>))))"

fun calc_results ::
  "cell list \<Rightarrow> (string \<times> fl list) list \<Rightarrow> error + (string \<times> metrics) list" where
  "calc_results y_test [] = Inr []"
| "calc_results y_test ((model_name, preds) # rest) =
     (case metrics_of y_test preds of
        Inl e \<Rightarrow> Inl e
      | Inr m \<Rightarrow>
          (case calc_results y_test rest of
             Inl e \<Rightarrow> Inl e
           | Inr rs \<Rightarrow> Inr ((model_name, m) # rs)))"

text \<open>
  \<^verbatim>\<open>predictions = {model_name: model.predict(X_test_scaled)
                  for model_name, model in models.items()}\<close>
\<close>

fun predict_all ::
  "'p sklearn \<Rightarrow> string list \<Rightarrow> fl list list \<Rightarrow> error + (string \<times> fl list) list" where
  "predict_all lib [] Z = Inr []"
| "predict_all lib (model_name # rest) Z =
     (case predict lib model_name Z of
        Inl e \<Rightarrow> Inl e
      | Inr preds \<Rightarrow>
          (case predict_all lib rest Z of
             Inl e \<Rightarrow> Inl e
           | Inr ps \<Rightarrow> Inr ((model_name, preds) # ps)))"

text \<open>
  The evaluation cell; the result holds the variables the cell leaves behind.
  \<^verbatim>\<open>X_test = data_test[features]
  y_test = data_test[target]
  X_test_scaled = scaler.transform(X_test)
  predictions = {...}
  results = {...}\<close>
\<close>

record 'p evaluated =
  scaler_after :: "'p scaler_obj"
  X_test :: dataframe
  y_test :: "cell list"
  X_test_scaled :: "fl list list"
  predictions :: "(string \<times> fl list) list"
  results :: "(string \<times> metrics) list"

definition evaluate :: "'p sklearn \<Rightarrow> 'p scaler_obj \<Rightarrow> dataframe \<Rightarrow> error + 'p evaluated" where
  "evaluate lib sc data_test =
     (case getitem data_test features of
        Inl e \<Rightarrow> Inl e
      | Inr X \<Rightarrow>
     (case getitem_col data_test target of
        Inl e \<Rightarrow> Inl e
      | Inr y \<Rightarrow>
     (case transform lib X sc of
        Inl e \<Rightarrow> Inl e
      | Inr (sc', Z) \<Rightarrow>
     (case predict_all lib model_names Z of
        Inl e \<Rightarrow> Inl e
      | Inr ps \<Rightarrow>
     (case calc_results y ps of
        Inl e \<Rightarrow> Inl e
      | Inr rs \<Rightarrow>
          Inr \<lparr>scaler_after = sc', X_test = X, y_test = y, X_test_scaled = Z,
               predictions = ps, results = rs\<rparr>)))))"

text \<open>The training cell followed by the evaluation cell, on the scaler the first leaves.\<close>

definition train_and_evaluate ::
  "'p sklearn \<Rightarrow> dataframe \<Rightarrow> dataframe \<Rightarrow> error + ('p trained \<times> 'p evaluated)" where
  "train_and_evaluate lib data_train data_test =
     (case train lib data_train of
        Inl e \<Rightarrow> Inl e
      | Inr t \<Rightarrow>
          (case evaluate lib (scaler t) data_test of
             Inl e \<Rightarrow> Inl e
           | Inr ev \<Rightarrow> Inr (t, ev)))"

section \<open>Dashboard\<close>

text \<open>A plotly figure: its traces and its layout (none for \<^verbatim>\<open>go.Figure()\<close>).\<close>

record scatter =
  xs_of :: "nat list"
  ys_of :: "cell list"
  mode :: string
  name :: string

record layout =
  title :: string
  xaxis_title :: string
  yaxis_title :: string

record figure =
  data :: "scatter list"
  fig_layout :: "layout option"

definition Figure :: figure where
  "Figure = \<lparr>data = [], fig_layout = None\<rparr>"

text \<open>
  \<^verbatim>\<open>def update_output(n_clicks, model_type):
      if n_clicks > 0:
          preds = predictions[model_type]
          trace = go.Scatter(x=y_test.index, y=preds, mode='lines+markers', name='Predicted')
          trace_actual = go.Scatter(x=y_test.index, y=y_test, mode='lines', name='Actual')
          layout = go.Layout(title='Solar Energy Production Forecast',
                             xaxis_title='Time', yaxis_title='Energy Produced')
          fig = go.Figure(data=[trace, trace_actual], layout=layout)
          metrics = results[model_type]
          return fig, f"RMSE: {metrics['RMSE']}", f"MSE: {metrics['MSE']}",
                 f"MAPE: {metrics['MAPE']}"
      return go.Figure(), '', '', ''\<close>
  The callback reads the variables of the evaluation cell. How Python prints a float
  is the parameter \<open>fmt\<close>. The index of \<^verbatim>\<open>y_test\<close> is the row positions.
\<close>

definition update_output ::
  "(fl \<Rightarrow> string) \<Rightarrow> 'p evaluated \<Rightarrow> int \<Rightarrow> string \<Rightarrow>
     error + (figure \<times> string \<times> string \<times> string)" where
  "update_output fmt ev n_clicks model_type =
     (if n_clicks > 0 then
        (case map_of (predictions ev) model_type of
           None \<Rightarrow> Inl KeyError
         | Some preds \<Rightarrow>
        (let trace = \<lparr>xs_of = [0..<length (y_test ev)], ys_of = map Num preds,
                      mode = ''lines+markers'', name = ''Predicted''\<rparr>;
             trace_actual = \<lparr>xs_of = [0..<length (y_test ev)], ys_of = y_test ev,
                      mode = ''lines'', name = ''Actual''\<rparr>;
             lay = \<lparr>title = ''Solar Energy Production Forecast'',
                    xaxis_title = ''Time'', yaxis_title = ''Energy Produced''\<rparr>;
             fig = \<lparr>data = [trace, trace_actual], fig_layout = Some lay\<rparr>
         in (case map_of (results ev) model_type of
               None \<Rightarrow> Inl KeyError
             | Some m \<Rightarrow>
                 Inr (fig, ''RMSE: '' @ fmt (RMSE m), ''MSE: '' @ fmt (MSE m),
                      ''MAPE: '' @ fmt (MAPE m)))))
      else Inr (Figure, [], [], []))"

text \<open>
  The page: the click counts of the two buttons, the dropdown's value, and the four
  outputs of the callback.
\<close>

record dash =
  start_n_clicks :: int
  end_n_clicks :: int
  model_selector :: string
  prediction_graph :: figure
  rmse_display :: string
  mse_display :: string
  mape_display :: string

text \<open>The layout: both buttons at \<^verbatim>\<open>n_clicks=0\<close>, the dropdown at \<^verbatim>\<open>'lr'\<close>.\<close>

definition app_layout :: dash where
  "app_layout = \<lparr>start_n_clicks = 0, end_n_clicks = 0, model_selector = ''lr'',
     prediction_graph = Figure, rmse_display = [], mse_display = [], mape_display = []\<rparr>"

text \<open>
  A user action: a click on the button with the given id, or a choice in the dropdown.
\<close>

datatype event = Click string | Select string

fun changed_prop :: "event \<Rightarrow> string \<times> string" where
  "changed_prop (Click cid) = (cid, ''n_clicks'')"
| "changed_prop (Select v) = (''model-selector'', ''value'')"

fun apply_event :: "dash \<Rightarrow> event \<Rightarrow> dash" where
  "apply_event st (Click cid) =
     (if cid = ''start-button'' then st\<lparr>start_n_clicks := start_n_clicks st + 1\<rparr>
      else if cid = ''end-button'' then st\<lparr>end_n_clicks := end_n_clicks st + 1\<rparr>
      else st)"
| "apply_event st (Select v) = st\<lparr>model_selector := v\<rparr>"

text \<open>
  The one registered callback:
  \<^verbatim>\<open>@app.callback(
      [Output('prediction-graph', 'figure'), Output('rmse-display', 'children'),
       Output('mse-display', 'children'), Output('mape-display', 'children')],
      [Input('start-button', 'n_clicks'), Input('model-selector', 'value')])\<close>
\<close>

definition callback_inputs :: "(string \<times> string) list" where
  "callback_inputs = [(''start-button'', ''n_clicks''), (''model-selector'', ''value'')]"

text \<open>
  Running the callback writes its four outputs; a callback that raises leaves them as
  they are.
\<close>

definition run_callback :: "(fl \<Rightarrow> string) \<Rightarrow> 'p evaluated \<Rightarrow> dash \<Rightarrow> dash" where
  "run_callback fmt ev st =
     (case update_output fmt ev (start_n_clicks st) (model_selector st) of
        Inl e \<Rightarrow> st
      | Inr (fig, r, m, p) \<Rightarrow>
          st\<lparr>prediction_graph := fig, rmse_display := r, mse_display := m,
             mape_display := p\<rparr>)"

text \<open>Dash runs a callback when a property among its inputs changes, and only then.\<close>

definition dispatch :: "(fl \<Rightarrow> string) \<Rightarrow> 'p evaluated \<Rightarrow> dash \<Rightarrow> event \<Rightarrow> dash" where
  "dispatch fmt ev st e =
     (if changed_prop e \<in> set callback_inputs then run_callback fmt ev (apply_event st e)
      else apply_event st e)"

fun run_events :: "(fl \<Rightarrow> string) \<Rightarrow> 'p evaluated \<Rightarrow> dash \<Rightarrow> event list \<Rightarrow> dash" where
  "run_events fmt ev st [] = st"
| "run_events fmt ev st (e # es) = run_events fmt ev (dispatch fmt ev st e) es"

definition outputs :: "dash \<Rightarrow> figure \<times> string \<times> string \<times> string" where
  "outputs st = (prediction_graph st, rmse_display st, mse_display st, mape_display st)"

section \<open>Sample inputs\<close>

text \<open>A small CSV file with the eight listed columns and one more, and three rows.\<close>

definition sample_csv :: dataframe where
  "sample_csv = \<lparr>nrows = 3, cols =
     [(''dtm'', [Str ''2020-09-20 00:00'', Str ''2020-09-20 00:30'', Str ''2020-09-20 01:00'']),
      (''MIP'', [Num (Fin 20), Num NaN, Num (Fin 21)]),
      (''Wind_MW'', [Num (Fin 900), Num (Fin 950), Num (Fin 980)]),
      (''Solar_MW'', [Num (Fin 0), Num (Fin 3), Num (Fin 4)]),
      (''Solar_capacity_mwp'', [Num (Fin 2108), Num (Fin 2108), Num (Fin 2108)]),
      (''Solar_installedcapacity_mwp'', [Num (Fin 2206), Num (Fin 2206), Num (Fin 2206)]),
      (''SS_Price'', [Num (Fin 3), Num (Fin 2), Num (Fin 5)]),
      (''boa_MWh'', [Num (Fin 0), Num (Fin 0), Num (Fin 0)]),
      (''DA_Price'', [Num (Fin 32), Num (Fin 33), Num (Fin 31)])]\<rparr>"

definition sample_fs :: "string \<rightharpoonup> dataframe" where
  "sample_fs = [''Datasets/Energy_Data_20200920_20231027.csv'' \<mapsto> sample_csv]"

text \<open>
  Stand-ins for the scikit-learn routines: the permutation is 1, 2, 0 (so row 1 is held
  out and rows 2 and 0 are kept for training),
  the scaler's statistics are the number of columns it saw, a scaled table has one
  empty row per row of its input, and every regressor predicts 2 for every row.
\<close>

definition sample_lib :: "nat sklearn" where
  "sample_lib = \<lparr>permutation = (\<lambda>n. [1, 2, 0]),
     sc_fit = (\<lambda>X. Inr (length (cols X))),
     sc_apply = (\<lambda>p X. Inr (replicate (nrows X) [])),
     predict = (\<lambda>model_name Z. Inr (map (\<lambda>row. Fin 2) Z))\<rparr>"

definition sample_trained :: "nat trained" where
  "sample_trained = projr (train sample_lib sample_csv)"

definition sample_evaluated :: "nat evaluated" where
  "sample_evaluated = projr (evaluate sample_lib (scaler sample_trained) sample_csv)"

section \<open>Rounding to a double\<close>

declare unroll8.simps [simp del]

declare pairwise_sum.simps [simp del]

lemma ulp_pos: "0 < ulp x"
  by (simp add: ulp_def)

lemma rne_err: "\<bar>of_int (rne x) - x\<bar> \<le> 1 / 2"
  unfolding rne_def by (auto; linarith)

lemma rne_int: "rne (of_int k) = k"
  by (simp add: rne_def)

lemma rne_nonneg: "0 \<le> x \<Longrightarrow> 0 \<le> rne x"
  unfolding rne_def by (auto; linarith)

lemma rne_near: "of_int k - 1 / 2 < x \<Longrightarrow> x < of_int k + 1 / 2 \<Longrightarrow> rne x = k"
proof -
  assume a: "of_int k - 1 / 2 < x" and b: "x < of_int k + 1 / 2"
  have "\<bar>of_int (rne x) - x\<bar> \<le> 1 / 2" by (rule rne_err)
  with a b have "\<bar>(of_int (rne x) :: real) - of_int k\<bar> < 1" by linarith
  then have "\<bar>rne x - k\<bar> < 1" by (metis of_int_abs of_int_diff of_int_less_1_iff)
  then show ?thesis by linarith
qed

lemma expo_ge: "- 1022 \<le> expo x"
  by (simp add: expo_def)

lemma expo_eq:
  assumes "2 powr of_int e \<le> \<bar>x\<bar>" and "\<bar>x\<bar> < 2 powr (of_int e + 1)" and "- 1022 \<le> e"
  shows "expo x = e"
proof -
  from assms(1) powr_gt_zero [of 2 "of_int e"] have pos: "0 < \<bar>x\<bar>" by linarith
  then have nz: "x \<noteq> 0" by simp
  from assms(1) pos have "of_int e \<le> log 2 \<bar>x\<bar>" by (simp add: le_log_iff)
  moreover from assms(2) pos have "log 2 \<bar>x\<bar> < of_int e + 1" by (simp add: log_less_iff)
  ultimately have "\<lfloor>log 2 \<bar>x\<bar>\<rfloor> = e" by linarith
  with nz assms(3) show ?thesis by (simp add: expo_def)
qed

text \<open>The rounded value is within half a spacing of the real one.\<close>

lemma scaled_err: "\<bar>of_int (rne (x / ulp x)) * ulp x - x\<bar> \<le> ulp x / 2"
proof -
  have "\<bar>of_int (rne (x / ulp x)) - x / ulp x\<bar> \<le> 1 / 2" by (rule rne_err)
  then have "\<bar>of_int (rne (x / ulp x)) - x / ulp x\<bar> * ulp x \<le> 1 / 2 * ulp x"
    using ulp_pos [of x] by (simp add: mult_right_mono)
  moreover have "\<bar>of_int (rne (x / ulp x)) - x / ulp x\<bar> * ulp x
      = \<bar>(of_int (rne (x / ulp x)) - x / ulp x) * ulp x\<bar>"
    using ulp_pos [of x] by (simp add: abs_mult)
  moreover have "(of_int (rne (x / ulp x)) - x / ulp x) * ulp x
      = of_int (rne (x / ulp x)) * ulp x - x"
    using ulp_pos [of x] by (simp add: left_diff_distrib)
  ultimately show ?thesis by simp
qed

lemma ulp_le:
  assumes "2 powr (- 1022) \<le> \<bar>x\<bar>"
  shows "ulp x \<le> \<bar>x\<bar> * 2 powr (- 52)"
proof -
  from assms powr_gt_zero [of 2 "- 1022"] have pos: "0 < \<bar>x\<bar>" by linarith
  then have nz: "x \<noteq> 0" by simp
  from assms pos have "- 1022 \<le> log 2 \<bar>x\<bar>" by (simp add: le_log_iff)
  then have "- 1022 \<le> \<lfloor>log 2 \<bar>x\<bar>\<rfloor>" by linarith
  with nz have e: "expo x = \<lfloor>log 2 \<bar>x\<bar>\<rfloor>" by (simp add: expo_def)
  have "2 powr of_int \<lfloor>log 2 \<bar>x\<bar>\<rfloor> \<le> 2 powr log 2 \<bar>x\<bar>" by simp
  with pos have "2 powr of_int \<lfloor>log 2 \<bar>x\<bar>\<rfloor> \<le> \<bar>x\<bar>" by simp
  then have "2 powr of_int (expo x) * 2 powr (- 52) \<le> \<bar>x\<bar> * 2 powr (- 52)"
    unfolding e by (simp add: mult_right_mono)
  then show ?thesis by (simp add: ulp_def powr_diff powr_minus field_simps)
qed

lemma rd_nonneg: "0 \<le> x \<Longrightarrow> nonneg_fl (rd x)"
proof -
  assume x: "0 \<le> x"
  then have "0 \<le> x / ulp x" using ulp_pos [of x] by simp
  then have "0 \<le> rne (x / ulp x)" by (rule rne_nonneg)
  then have nn: "0 \<le> of_int (rne (x / ulp x)) * ulp x" using ulp_pos [of x] by simp
  show ?thesis
  proof (cases "2 ^ 1024 \<le> \<bar>of_int (rne (x / ulp x)) * ulp x\<bar>")
    case True
    have "0 < x"
    proof (rule ccontr)
      assume "\<not> 0 < x"
      with x have "x = 0" by simp
      then have "rne (x / ulp x) = 0" using rne_int [of 0] by simp
      with True show False by simp
    qed
    with True show ?thesis by (simp add: rd_def)
  next
    case False
    with nn show ?thesis by (simp add: rd_def)
  qed
qed

text \<open>In the normal range rounding is finite and has a relative error of at most \<open>2\<^sup>-\<^sup>5\<^sup>3\<close>.\<close>

lemma rd_normal:
  assumes "2 powr (- 1022) \<le> \<bar>x\<bar>" and "\<bar>x\<bar> \<le> 2 ^ 1023"
  shows "\<exists>y. rd x = Fin y \<and> \<bar>y - x\<bar> \<le> \<bar>x\<bar> / 2 ^ 53"
proof -
  let ?y = "of_int (rne (x / ulp x)) * ulp x"
  have "ulp x \<le> \<bar>x\<bar> * 2 powr (- 52)" using assms(1) by (rule ulp_le)
  also have "\<dots> = \<bar>x\<bar> / 2 ^ 52" by (simp add: powr_neg_numeral)
  finally have u: "ulp x / 2 \<le> \<bar>x\<bar> / 2 ^ 53" by simp
  with scaled_err [of x] have e: "\<bar>?y - x\<bar> \<le> \<bar>x\<bar> / 2 ^ 53" by linarith
  then have "\<bar>?y\<bar> \<le> \<bar>x\<bar> + \<bar>x\<bar> / 2 ^ 53" by linarith
  also have "\<dots> \<le> 2 ^ 1023 + 2 ^ 1023 / 2 ^ 53" using assms(2) by (simp add: add_mono divide_right_mono)
  also have "\<dots> < 2 ^ 1024" by simp
  finally have "\<not> 2 ^ 1024 \<le> \<bar>?y\<bar>" by simp
  then have "rd x = Fin ?y" by (simp add: rd_def)
  with e show ?thesis by blast
qed

text \<open>A finite rounded value is zero or at least the smallest subnormal.\<close>

lemma rd_range:
  assumes "rd x = Fin y" and "y \<noteq> 0"
  shows "2 powr (- 1074) \<le> \<bar>y\<bar>" and "\<bar>y\<bar> < 2 ^ 1024"
proof -
  from assms(1) have y: "y = of_int (rne (x / ulp x)) * ulp x" and lt: "\<bar>y\<bar> < 2 ^ 1024"
    by (auto simp: rd_def split: if_splits)
  from lt show "\<bar>y\<bar> < 2 ^ 1024" .
  from y assms(2) have "rne (x / ulp x) \<noteq> 0" by auto
  then have "1 \<le> \<bar>rne (x / ulp x)\<bar>" by linarith
  then have "(1::real) \<le> \<bar>of_int (rne (x / ulp x))\<bar>"
    by (metis of_int_1_le_iff of_int_abs)
  then have "ulp x \<le> \<bar>of_int (rne (x / ulp x))\<bar> * ulp x"
    using ulp_pos [of x] by (simp add: mult_le_cancel_right1)
  also have "\<dots> = \<bar>y\<bar>" using ulp_pos [of x] by (simp add: y abs_mult)
  finally have "ulp x \<le> \<bar>y\<bar>" .
  moreover have "2 powr (- 1074) \<le> ulp x"
    unfolding ulp_def using expo_ge [of x] by (simp del: powr_numeral powr_neg_numeral)
  ultimately show "2 powr (- 1074) \<le> \<bar>y\<bar>" by linarith
qed

text \<open>Computing a rounded value when the binade is known.\<close>

lemma rd_eval:
  assumes "2 powr of_int e \<le> \<bar>x\<bar>" and "\<bar>x\<bar> < 2 powr (of_int e + 1)" and "- 1022 \<le> e"
    and "rne (x / 2 powr (of_int e - 52)) = k"
    and "\<bar>real_of_int k * 2 powr (of_int e - 52)\<bar> < 2 ^ 1024"
  shows "rd x = Fin (real_of_int k * 2 powr (of_int e - 52))"
proof -
  from assms(1-3) have "expo x = e" by (rule expo_eq)
  then have "ulp x = 2 powr (of_int e - 52)" by (simp add: ulp_def)
  with assms(4,5) show ?thesis by (simp add: rd_def)
qed

text \<open>An integer below \<open>2\<^sup>5\<^sup>3\<close> is a double.\<close>

lemma rd_int:
  assumes "\<bar>k\<bar> < 2 ^ 53"
  shows "rd (of_int k) = Fin (of_int k)"
proof (cases "k = 0")
  case True
  then show ?thesis using rne_int [of 0] by (simp add: rd_def)
next
  case False
  let ?x = "of_int k :: real"
  from False have k1: "1 \<le> \<bar>?x\<bar>" by (metis of_int_1_le_iff of_int_abs zero_less_abs_iff int_one_le_iff_zero_less)
  then have l0: "0 \<le> log 2 \<bar>?x\<bar>" by simp
  from assms have "\<bar>?x\<bar> < 2 ^ 53" by (metis of_int_abs of_int_less_numeral_power_cancel_iff)
  with k1 have "log 2 \<bar>?x\<bar> < 53" by (simp add: log_less_iff)
  with l0 have e: "0 \<le> \<lfloor>log 2 \<bar>?x\<bar>\<rfloor>" "\<lfloor>log 2 \<bar>?x\<bar>\<rfloor> \<le> 52" by linarith+
  from e(1) have "max \<lfloor>log 2 \<bar>?x\<bar>\<rfloor> (- 1022) = \<lfloor>log 2 \<bar>?x\<bar>\<rfloor>" by linarith
  with False have ex: "expo ?x = \<lfloor>log 2 \<bar>?x\<bar>\<rfloor>" by (simp only: expo_def of_int_eq_0_iff if_False)
  define j where "j = nat (52 - expo ?x)"
  from e ex have j: "of_int (expo ?x) - 52 = - real j" by (simp add: j_def)
  have u: "ulp ?x = 1 / 2 ^ j"
    unfolding ulp_def j by (simp add: powr_minus powr_realpow inverse_eq_divide)
  then have "?x / ulp ?x = of_int (k * 2 ^ j)" by simp
  then have "rne (?x / ulp ?x) = k * 2 ^ j" by (simp only: rne_int)
  then have y: "of_int (rne (?x / ulp ?x)) * ulp ?x = ?x" by (simp add: u)
  from \<open>\<bar>?x\<bar> < 2 ^ 53\<close> have "\<bar>?x\<bar> < 2 ^ 1024"
    by (rule less_trans) simp
  then show ?thesis unfolding rd_def y by simp
qed

lemma rd_numeral:
  "\<bar>numeral w\<bar> < (2::int) ^ 53 \<Longrightarrow> rd (numeral w) = Fin (numeral w)"
  "\<bar>numeral w\<bar> < (2::int) ^ 53 \<Longrightarrow> rd (- numeral w) = Fin (- numeral w)"
  "rd 0 = Fin 0" "rd 1 = Fin 1"
  using rd_int [of "numeral w"] rd_int [of "- numeral w"] rd_int [of 0] rd_int [of 1]
  by simp_all

lemma two_powr_neg:
  "2 powr (- 53) = (1 / 2 ^ 53 :: real)" "2 powr (- 52) = (1 / 2 ^ 52 :: real)"
  "2 powr (- 51) = (1 / 2 ^ 51 :: real)"
  by (simp_all add: powr_minus_divide powr_numeral)

lemma rd_not_NaN: "rd x \<noteq> NaN"
  by (simp add: rd_def)

text \<open>Sums, squares and quotients of what is not negative are not negative.\<close>

lemma radd_nonneg: "nonneg_fl a \<Longrightarrow> nonneg_fl b \<Longrightarrow> nonneg_fl (radd a b)"
  by (cases a; cases b) (simp_all add: rd_nonneg)

lemma foldl_radd_nonneg:
  "nonneg_fl a \<Longrightarrow> list_all nonneg_fl xs \<Longrightarrow> nonneg_fl (foldl radd a xs)"
  by (induction xs arbitrary: a) (simp_all add: radd_nonneg)

lemma sq_err_nonneg: "nonneg_fl (sq_err (Fin x, Fin y))"
proof -
  have "nonneg_fl (rmul v v)" if "v \<noteq> NaN" for v
    using that by (cases v) (simp_all add: rd_nonneg)
  then show ?thesis by (simp add: sq_err_def rd_not_NaN)
qed

lemma rdiv_nonneg: "nonneg_fl s \<Longrightarrow> 0 < n \<Longrightarrow> nonneg_fl (rdiv s (Fin n))"
  by (cases s) (simp_all add: rd_nonneg)

lemma sum8_nonneg: "list_all nonneg_fl r \<Longrightarrow> length r = 8 \<Longrightarrow> nonneg_fl (sum8 r)"
  by (simp add: sum8_def radd_nonneg list_all_length)

lemma unroll8_nonneg:
  "list_all nonneg_fl r \<Longrightarrow> list_all nonneg_fl xs \<Longrightarrow> length r = 8 \<Longrightarrow>
     list_all nonneg_fl (fst (unroll8 r xs)) \<and> list_all nonneg_fl (snd (unroll8 r xs))
     \<and> length (fst (unroll8 r xs)) = 8"
proof (induction r xs rule: unroll8.induct)
  case (1 r xs)
  show ?case
  proof (cases "length xs < 8")
    case True
    with 1 show ?thesis by (simp add: unroll8.simps [of r xs])
  next
    case False
    let ?r = "map (\<lambda>ab. radd (fst ab) (snd ab)) (zip r (take 8 xs))"
    have "nonneg_fl (radd (fst ab) (snd ab))" if "ab \<in> set (zip r (take 8 xs))" for ab
    proof -
      from that have "fst ab \<in> set r" by (metis prod.collapse set_zip_leftD)
      moreover from that have "snd ab \<in> set (take 8 xs)" by (metis prod.collapse set_zip_rightD)
      then have "snd ab \<in> set xs" by (rule in_set_takeD)
      ultimately show ?thesis using 1(2,3) by (simp add: list_all_iff radd_nonneg)
    qed
    then have "list_all nonneg_fl ?r" by (simp add: list_all_iff)
    moreover from 1(3) have "list_all nonneg_fl (drop 8 xs)"
      by (auto simp: list_all_iff dest: in_set_dropD)
    moreover from False 1(4) have "length ?r = 8" by simp
    ultimately have "list_all nonneg_fl (fst (unroll8 ?r (drop 8 xs)))
        \<and> list_all nonneg_fl (snd (unroll8 ?r (drop 8 xs)))
        \<and> length (fst (unroll8 ?r (drop 8 xs))) = 8"
      using False by (intro 1(1)) simp_all
    with False show ?thesis by (simp add: unroll8.simps [of r xs])
  qed
qed

lemma pairwise_sum_nonneg: "list_all nonneg_fl xs \<Longrightarrow> nonneg_fl (pairwise_sum xs)"
proof (induction xs rule: pairwise_sum.induct)
  case (1 xs)
  consider "length xs < 8" | "8 \<le> length xs" "length xs \<le> 128" | "128 < length xs"
    by linarith
  then show ?case
  proof cases
    case 1
    with "1.prems" show ?thesis
      by (simp add: pairwise_sum.simps [of xs] foldl_radd_nonneg)
  next
    case 2
    from "1.prems" have "list_all nonneg_fl (take 8 xs)" "list_all nonneg_fl (drop 8 xs)"
      by (auto simp: list_all_iff dest: in_set_takeD in_set_dropD)
    moreover from 2 have "length (take 8 xs) = 8" by simp
    ultimately have u: "list_all nonneg_fl (fst (unroll8 (take 8 xs) (drop 8 xs)))"
      "list_all nonneg_fl (snd (unroll8 (take 8 xs) (drop 8 xs)))"
      "length (fst (unroll8 (take 8 xs) (drop 8 xs))) = 8"
      using unroll8_nonneg by blast+
    from u(1,3) have "nonneg_fl (sum8 (fst (unroll8 (take 8 xs) (drop 8 xs))))"
      by (rule sum8_nonneg)
    with u(2) 2 show ?thesis
      by (simp add: pairwise_sum.simps [of xs] foldl_radd_nonneg)
  next
    case 3
    let ?n2 = "length xs div 2 - length xs div 2 mod 8"
    from "1.prems" have "list_all nonneg_fl (take ?n2 xs)" "list_all nonneg_fl (drop ?n2 xs)"
      by (auto simp: list_all_iff dest: in_set_takeD in_set_dropD)
    with 3 have "nonneg_fl (pairwise_sum (take ?n2 xs))" "nonneg_fl (pairwise_sum (drop ?n2 xs))"
      using "1.IH" by simp_all
    with 3 show ?thesis
      by (simp add: pairwise_sum.simps [of xs] radd_nonneg)
  qed
qed

text \<open>The double nearest to the square root of a double, squared, is close to it.\<close>

lemma rd_sqrt_close:
  assumes "2 powr (- 1074) \<le> a" and "a < 2 ^ 1024"
  shows "\<exists>r. rd (sqrt a) = Fin r \<and> 0 \<le> r \<and> \<bar>r\<^sup>2 - a\<bar> \<le> a / 2 ^ 51"
proof -
  from assms(1) powr_gt_zero [of 2 "- 1074"] have a0: "0 < a" by linarith
  let ?s = "sqrt a"
  from a0 have s0: "0 < ?s" by simp
  have "sqrt (2 powr (- 1074)) = (2 powr (- 1074)) powr (1 / 2)"
    by (simp add: powr_half_sqrt)
  also have "\<dots> = 2 powr (- 537)" by (simp add: powr_powr)
  finally have "2 powr (- 537) \<le> ?s" using assms(1) by (metis real_sqrt_le_iff)
  moreover have "(2::real) powr (- 1022) \<le> 2 powr (- 537)" by (rule powr_mono) simp_all
  ultimately have lo: "2 powr (- 1022) \<le> \<bar>?s\<bar>" using s0 by linarith
  have "?s < sqrt (2 ^ 1024)" using assms(2) by (simp del: power_numeral)
  also have "\<dots> = 2 ^ 512"
    by (rule real_sqrt_unique) simp_all
  finally have "?s < 2 ^ 512" .
  moreover have "(2::real) ^ 512 \<le> 2 ^ 1023" by (rule power_increasing) simp_all
  ultimately have hi: "\<bar>?s\<bar> \<le> 2 ^ 1023" using s0 by linarith
  from rd_normal [OF lo hi] obtain r where r: "rd ?s = Fin r" and e: "\<bar>r - ?s\<bar> \<le> \<bar>?s\<bar> / 2 ^ 53"
    by blast
  from rd_nonneg [of ?s] s0 r have r0: "0 \<le> r" by simp
  from e s0 have e': "\<bar>r - ?s\<bar> \<le> ?s / 2 ^ 53" by simp
  then have "r \<le> ?s + ?s / 2 ^ 53" by linarith
  with r0 s0 have sum: "\<bar>r + ?s\<bar> \<le> 2 * ?s + ?s / 2 ^ 53" by linarith
  from a0 have sq: "?s * ?s = a" by simp
  have "r\<^sup>2 - a = (r - ?s) * (r + ?s)" using sq by (simp add: power2_eq_square algebra_simps)
  then have "\<bar>r\<^sup>2 - a\<bar> = \<bar>r - ?s\<bar> * \<bar>r + ?s\<bar>" by (simp add: abs_mult)
  also have "\<dots> \<le> (?s / 2 ^ 53) * (2 * ?s + ?s / 2 ^ 53)"
    using e' sum s0 by (intro mult_mono) simp_all
  also have "\<dots> = a * (2 / 2 ^ 53 + 1 / 2 ^ 106)"
    using sq by (simp add: algebra_simps)
  also have "\<dots> \<le> a * (1 / 2 ^ 51)"
    using a0 by (intro mult_left_mono) simp_all
  finally have "\<bar>r\<^sup>2 - a\<bar> \<le> a / 2 ^ 51" by simp
  with r r0 show ?thesis by blast
qed


section \<open>Forward fill\<close>

lemma length_pad: "length (pad carry xs) = length xs"
  by (induction xs arbitrary: carry) auto

lemma pad_leading:
  "i < length xs \<Longrightarrow> \<forall>j\<le>i. isna (xs ! j) \<Longrightarrow>
     pad carry xs ! i = (case carry of None \<Rightarrow> xs ! i | Some v \<Rightarrow> v)"
proof (induction xs arbitrary: i carry)
  case Nil
  then show ?case by simp
next
  case (Cons x xs)
  from Cons.prems(2) have x: "isna x" by (metis le0 nth_Cons_0)
  show ?case
  proof (cases i)
    case 0
    with x show ?thesis by (simp split: option.split)
  next
    case (Suc k)
    from Cons.prems Suc have "k < length xs" and "\<forall>j\<le>k. isna (xs ! j)" by auto
    then have "pad carry xs ! k = (case carry of None \<Rightarrow> xs ! k | Some v \<Rightarrow> v)"
      by (rule Cons.IH)
    with x Suc show ?thesis by (simp split: option.split)
  qed
qed

lemma pad_nearest:
  "i < length xs \<Longrightarrow> j \<le> i \<Longrightarrow> \<not> isna (xs ! j) \<Longrightarrow> \<forall>k. j < k \<and> k \<le> i \<longrightarrow> isna (xs ! k) \<Longrightarrow>
     pad carry xs ! i = xs ! j"
proof (induction xs arbitrary: i j carry)
  case Nil
  then show ?case by simp
next
  case (Cons x xs)
  show ?case
  proof (cases j)
    case 0
    note j0 = this
    with Cons.prems have x: "\<not> isna x" by simp
    show ?thesis
    proof (cases i)
      case 0
      with x j0 show ?thesis by simp
    next
      case (Suc m)
      from Cons.prems j0 Suc have "m < length xs" and "\<forall>k\<le>m. isna (xs ! k)" by auto
      then have "pad (Some x) xs ! m = x"
        using pad_leading [of m xs "Some x"] by simp
      with x j0 Suc show ?thesis by simp
    qed
  next
    case (Suc j')
    with Cons.prems obtain i' where i': "i = Suc i'" by (cases i) auto
    from Cons.prems Suc i' have
      "i' < length xs" "j' \<le> i'" "\<not> isna (xs ! j')" "\<forall>k. j' < k \<and> k \<le> i' \<longrightarrow> isna (xs ! k)"
      by auto
    then have "\<And>l. pad l xs ! i' = xs ! j'" by (rule Cons.IH)
    with Suc i' show ?thesis by simp
  qed
qed



section \<open>Cleaning keeps what was there\<close>

lemma pad_keeps: "i < length xs \<Longrightarrow> \<not> isna (xs ! i) \<Longrightarrow> pad carry xs ! i = xs ! i"
  by (rule pad_nearest) auto

lemma colnames_filter:
  "map fst (filter (\<lambda>c. fst c \<noteq> n) cs) = filter (\<lambda>c. c \<noteq> n) (map fst cs)"
  by (induction cs) auto

text \<open>
  C10. When the retrieved table has the \<^verbatim>\<open>_id\<close> column, cleaning succeeds; the cleaned
  table has the same number of rows; its columns are the retrieved columns without
  \<^verbatim>\<open>_id\<close>, in the same order; and every cell that was not missing keeps its value.
\<close>

theorem clean_preserves_values:
  assumes "''_id'' \<in> set (colnames df)"
  shows "\<exists>df'. clean df = Inr df'
    \<and> nrows df' = nrows df
    \<and> colnames df' = filter (\<lambda>c. c \<noteq> ''_id'') (colnames df)
    \<and> set (colnames df') = set (colnames df) - {''_id''}
    \<and> (\<forall>n < length (cols df').
          fst (cols df' ! n) = fst (filter (\<lambda>c. fst c \<noteq> ''_id'') (cols df) ! n)
          \<and> length (snd (cols df' ! n))
              = length (snd (filter (\<lambda>c. fst c \<noteq> ''_id'') (cols df) ! n))
          \<and> (\<forall>i < length (snd (filter (\<lambda>c. fst c \<noteq> ''_id'') (cols df) ! n)).
                \<not> isna (snd (filter (\<lambda>c. fst c \<noteq> ''_id'') (cols df) ! n) ! i) \<longrightarrow>
                snd (cols df' ! n) ! i = snd (filter (\<lambda>c. fst c \<noteq> ''_id'') (cols df) ! n) ! i))"
proof -
  let ?kept = "filter (\<lambda>c. fst c \<noteq> ''_id'') (cols df)"
  let ?df' = "fillna_ffill (df\<lparr>cols := ?kept\<rparr>)"
  from assms have c: "clean df = Inr ?df'"
    by (simp add: clean_def drop_col_def)
  have cs: "cols ?df' = map (\<lambda>c. (fst c, ffill (snd c))) ?kept"
    by (simp add: fillna_ffill_def)
  have r: "nrows ?df' = nrows df"
    by (simp add: fillna_ffill_def)
  have names: "colnames ?df' = filter (\<lambda>c. c \<noteq> ''_id'') (colnames df)"
    unfolding colnames_def cs by (simp add: comp_def colnames_filter)
  have names_set: "set (colnames ?df') = set (colnames df) - {''_id''}"
    unfolding names by auto
  have cells: "fst (cols ?df' ! n) = fst (?kept ! n)
      \<and> length (snd (cols ?df' ! n)) = length (snd (?kept ! n))
      \<and> (\<forall>i < length (snd (?kept ! n)).
            \<not> isna (snd (?kept ! n) ! i) \<longrightarrow> snd (cols ?df' ! n) ! i = snd (?kept ! n) ! i)"
    if "n < length (cols ?df')" for n
  proof -
    from that have n: "n < length ?kept" by (simp add: cs)
    then have "cols ?df' ! n = (fst (?kept ! n), ffill (snd (?kept ! n)))"
      unfolding cs by simp
    then show ?thesis
      by (simp add: ffill_def length_pad pad_keeps)
  qed
  from c r names names_set cells show ?thesis by blast
qed

theorem clean_preserves_values_witness:
  "''_id'' \<in> set (colnames (retrieve [[(''_id'', ObjectId 0), (''MIP'', Num NaN)],
                                     [(''_id'', ObjectId 1), (''MIP'', Num (Fin 5))],
                                     [(''_id'', ObjectId 2), (''MIP'', PyNone)]]))
   \<and> (\<exists>df'. clean (retrieve [[(''_id'', ObjectId 0), (''MIP'', Num NaN)],
                            [(''_id'', ObjectId 1), (''MIP'', Num (Fin 5))],
                            [(''_id'', ObjectId 2), (''MIP'', PyNone)]]) = Inr df'
        \<and> nrows df' = 3 \<and> colnames df' = [''MIP''])"
proof -
  let ?df = "retrieve [[(''_id'', ObjectId 0), (''MIP'', Num NaN)],
                      [(''_id'', ObjectId 1), (''MIP'', Num (Fin 5))],
                      [(''_id'', ObjectId 2), (''MIP'', PyNone)]]"
  have df: "?df = \<lparr>nrows = 3, cols = [(''_id'', [ObjectId 0, ObjectId 1, ObjectId 2]),
                                      (''MIP'', [Num NaN, Num (Fin 5), PyNone])]\<rparr>"
    by (simp add: retrieve_def find_docs_def DataFrame_def cell_of_def)
  have h: "''_id'' \<in> set (colnames ?df)"
    unfolding df by (simp add: colnames_def)
  from clean_preserves_values [OF h] obtain df' where
    "clean ?df = Inr df'" "nrows df' = nrows ?df"
    "colnames df' = filter (\<lambda>c. c \<noteq> ''_id'') (colnames ?df)"
    by blast
  moreover have "nrows ?df = 3" unfolding df by simp
  moreover have "filter (\<lambda>c. c \<noteq> ''_id'') (colnames ?df) = [''MIP'']"
    unfolding df by (simp add: colnames_def)
  ultimately show ?thesis using h by auto
qed

section \<open>Ingestion appends one document per row\<close>

lemma lookup_cols_present:
  "set names \<subseteq> set (map fst cs) \<Longrightarrow>
     lookup_cols cs names = Inr (map (\<lambda>n. (n, the (map_of cs n))) names)"
proof (induction names)
  case Nil
  then show ?case by simp
next
  case (Cons n ns)
  then have "n \<in> fst ` set cs" by simp
  then obtain xs where "map_of cs n = Some xs"
    by (metis map_of_eq_None_iff not_Some_eq)
  with Cons show ?case by simp
qed

lemma id_not_listed: "''_id'' \<notin> set columns"
  by (simp add: columns_def)

lemma import_csv_data_result:
  assumes "fs file_path = Some df" and "set columns \<subseteq> set (colnames df)" and "0 < nrows df"
  shows "import_csv_data fs file_path columns coll =
    Inr (coll @ map (\<lambda>i. (''_id'', ObjectId (length coll + i))
                       # map (\<lambda>k. (k, the (map_of (cols df) k) ! i)) columns) [0..<nrows df])"
proof -
  let ?df' = "\<lparr>nrows = nrows df, cols = map (\<lambda>n. (n, the (map_of (cols df) n))) columns\<rparr>"
  let ?row = "\<lambda>i. map (\<lambda>k. (k, the (map_of (cols df) k) ! i)) columns"
  from assms(2) have g: "getitem df columns = Inr ?df'"
    by (simp add: getitem_def colnames_def lookup_cols_present)
  have recs: "to_dict_records ?df' = map ?row [0..<nrows df]"
    by (simp add: to_dict_records_def comp_def)
  from assms(3) have ne: "map ?row [0..<nrows df] \<noteq> []" by simp
  have wid: "with_id n (?row i) = (''_id'', ObjectId n) # ?row i" for n i
    using id_not_listed by (simp add: with_id_def comp_def)
  have "insert_many (map ?row [0..<nrows df]) coll =
      Inr (coll @ map (\<lambda>i. (''_id'', ObjectId (length coll + i)) # ?row i) [0..<nrows df])"
    unfolding insert_many_def using ne by (simp add: wid)
  with assms(1) g recs show ?thesis
    by (simp add: import_csv_data_def read_csv_def)
qed

lemma import_csv_data_no_rows:
  assumes "fs file_path = Some df" and "set columns \<subseteq> set (colnames df)" and "nrows df = 0"
  shows "import_csv_data fs file_path columns coll = Inl TypeError"
proof -
  let ?df' = "\<lparr>nrows = nrows df, cols = map (\<lambda>n. (n, the (map_of (cols df) n))) columns\<rparr>"
  from assms(2) have g: "getitem df columns = Inr ?df'"
    by (simp add: getitem_def colnames_def lookup_cols_present)
  from assms(3) have "to_dict_records ?df' = []"
    by (simp add: to_dict_records_def)
  with assms(1) g show ?thesis
    by (simp add: import_csv_data_def read_csv_def insert_many_def)
qed

text \<open>
  C7. For a CSV file that has the eight listed columns, ingestion appends exactly one
  document per row to the collection, leaving the documents already there in place.
  Each new document holds the store-assigned \<^verbatim>\<open>_id\<close> and the eight listed columns and
  nothing else, with the values of its row. Running ingestion again on the same file
  appends the same documents once more (they differ in \<^verbatim>\<open>_id\<close> only), so a collection
  that started empty has twice as many documents after the second run as after the
  first. (For a file with no rows the bulk insert raises, and nothing is stored; an
  error result stands for a call that raised and left the collection as it was.)
\<close>

theorem import_csv_data_appends:
  assumes "fs file_path = Some df" and "wf_df df" and "set columns \<subseteq> set (colnames df)"
  shows "(0 < nrows df \<longrightarrow> (\<exists>c1 c2.
      import_csv_data fs file_path columns coll = Inr c1
    \<and> import_csv_data fs file_path columns c1 = Inr c2
    \<and> length c1 = length coll + nrows df
    \<and> take (length coll) c1 = coll
    \<and> (\<forall>i < nrows df.
          map fst (c1 ! (length coll + i)) = ''_id'' # columns
          \<and> (\<forall>k xs. k \<in> set columns \<and> map_of (cols df) k = Some xs \<longrightarrow>
                map_of (c1 ! (length coll + i)) k = Some (xs ! i)))
    \<and> length c2 = length c1 + nrows df
    \<and> take (length c1) c2 = c1
    \<and> (\<forall>i < nrows df. tl (c2 ! (length c1 + i)) = tl (c1 ! (length coll + i)))
    \<and> (coll = [] \<longrightarrow> length c2 = 2 * length c1)))
  \<and> (nrows df = 0 \<longrightarrow> import_csv_data fs file_path columns coll = Inl TypeError)"
proof (intro conjI impI)
  assume rows: "0 < nrows df"
  let ?row = "\<lambda>i. map (\<lambda>k. (k, the (map_of (cols df) k) ! i)) columns"
  let ?new = "\<lambda>c. map (\<lambda>i. (''_id'', ObjectId (length c + i)) # ?row i) [0..<nrows df]"
  let ?c1 = "coll @ ?new coll"
  let ?c2 = "?c1 @ ?new ?c1"
  have r1: "import_csv_data fs file_path columns coll = Inr ?c1"
    using assms(1,3) rows by (rule import_csv_data_result)
  have r2: "import_csv_data fs file_path columns ?c1 = Inr ?c2"
    using assms(1,3) rows by (rule import_csv_data_result)
  have l1: "length ?c1 = length coll + nrows df" by simp
  have t1: "take (length coll) ?c1 = coll" by simp
  have d1: "?c1 ! (length coll + i) = (''_id'', ObjectId (length coll + i)) # ?row i"
    if "i < nrows df" for i
    using that by (simp add: nth_append)
  have d2: "?c2 ! (length ?c1 + i) = (''_id'', ObjectId (length ?c1 + i)) # ?row i"
    if "i < nrows df" for i
    using that by (simp only: nth_append_length_plus) simp
  have keys: "map fst (?row i) = columns" for i
    by (simp add: comp_def)
  have val: "map_of ((''_id'', ObjectId n) # ?row i) k = Some (xs ! i)"
    if "k \<in> set columns" "map_of (cols df) k = Some xs" for n i k xs
  proof -
    from that(1) id_not_listed have "k \<noteq> ''_id''" by auto
    moreover have "map_of (?row i) k = Some (the (map_of (cols df) k) ! i)"
      using that(1) by (simp add: map_of_map_restrict)
    ultimately show ?thesis using that(2) by simp
  qed
  have docs: "map fst (?c1 ! (length coll + i)) = ''_id'' # columns
      \<and> (\<forall>k xs. k \<in> set columns \<and> map_of (cols df) k = Some xs \<longrightarrow>
            map_of (?c1 ! (length coll + i)) k = Some (xs ! i))"
    if "i < nrows df" for i
    unfolding d1 [OF that] using keys val by simp
  have l2: "length ?c2 = length ?c1 + nrows df" by simp
  have t2: "take (length ?c1) ?c2 = ?c1" by simp
  have again: "tl (?c2 ! (length ?c1 + i)) = tl (?c1 ! (length coll + i))"
    if "i < nrows df" for i
    unfolding d1 [OF that] d2 [OF that] by simp
  have dbl: "coll = [] \<longrightarrow> length ?c2 = 2 * length ?c1" by simp
  from r1 r2 l1 t1 docs l2 t2 again dbl show "\<exists>c1 c2.
      import_csv_data fs file_path columns coll = Inr c1
    \<and> import_csv_data fs file_path columns c1 = Inr c2
    \<and> length c1 = length coll + nrows df
    \<and> take (length coll) c1 = coll
    \<and> (\<forall>i < nrows df.
          map fst (c1 ! (length coll + i)) = ''_id'' # columns
          \<and> (\<forall>k xs. k \<in> set columns \<and> map_of (cols df) k = Some xs \<longrightarrow>
                map_of (c1 ! (length coll + i)) k = Some (xs ! i)))
    \<and> length c2 = length c1 + nrows df
    \<and> take (length c1) c2 = c1
    \<and> (\<forall>i < nrows df. tl (c2 ! (length c1 + i)) = tl (c1 ! (length coll + i)))
    \<and> (coll = [] \<longrightarrow> length c2 = 2 * length c1)"
    by blast
next
  assume "nrows df = 0"
  with assms(1,3) show "import_csv_data fs file_path columns coll = Inl TypeError"
    by (rule import_csv_data_no_rows)
qed

theorem import_csv_data_appends_witness:
  "sample_fs ''Datasets/Energy_Data_20200920_20231027.csv'' = Some sample_csv
   \<and> wf_df sample_csv \<and> set columns \<subseteq> set (colnames sample_csv) \<and> 0 < nrows sample_csv
   \<and> (\<exists>c1 c2.
        import_csv_data sample_fs ''Datasets/Energy_Data_20200920_20231027.csv'' columns [] = Inr c1
      \<and> import_csv_data sample_fs ''Datasets/Energy_Data_20200920_20231027.csv'' columns c1 = Inr c2
      \<and> length c1 = 3 \<and> length c2 = 6 \<and> map fst (c1 ! 1) = ''_id'' # columns)"
proof -
  have h1: "sample_fs ''Datasets/Energy_Data_20200920_20231027.csv'' = Some sample_csv"
    by (simp add: sample_fs_def)
  have h2: "wf_df sample_csv"
    by (simp add: wf_df_def colnames_def sample_csv_def)
  have h3: "set columns \<subseteq> set (colnames sample_csv)"
    by (simp add: columns_def colnames_def sample_csv_def)
  have h4: "0 < nrows sample_csv"
    by (simp add: sample_csv_def)
  have n: "nrows sample_csv = 3"
    by (simp add: sample_csv_def)
  from import_csv_data_appends
      [of sample_fs "''Datasets/Energy_Data_20200920_20231027.csv''" sample_csv "[]",
       OF h1 h2 h3, THEN conjunct1, THEN mp, OF h4]
  obtain c1 c2 where
    r1: "import_csv_data sample_fs ''Datasets/Energy_Data_20200920_20231027.csv'' columns [] = Inr c1"
    and r2: "import_csv_data sample_fs ''Datasets/Energy_Data_20200920_20231027.csv'' columns c1 = Inr c2"
    and l1: "length c1 = length ([]::collection) + nrows sample_csv"
    and l2: "length c2 = length c1 + nrows sample_csv"
    and d: "\<forall>i < nrows sample_csv. map fst (c1 ! (length ([]::collection) + i)) = ''_id'' # columns
          \<and> (\<forall>k xs. k \<in> set columns \<and> map_of (cols sample_csv) k = Some xs \<longrightarrow>
                map_of (c1 ! (length ([]::collection) + i)) k = Some (xs ! i))"
    by blast
  have "map fst (c1 ! 1) = ''_id'' # columns"
    using d [rule_format, of 1] n by simp
  with r1 r2 l1 l2 n h1 h2 h3 h4 show ?thesis by auto
qed

section \<open>What the evaluation cell leaves behind\<close>

lemma predict_all_keys: "predict_all lib names Z = Inr ps \<Longrightarrow> map fst ps = names"
  by (induction names arbitrary: ps) (auto split: sum.splits)

lemma calc_results_keys: "calc_results y ps = Inr rs \<Longrightarrow> map fst rs = map fst ps"
  by (induction y ps arbitrary: rs rule: calc_results.induct) (auto split: sum.splits)

lemma calc_results_metrics:
  "calc_results y ps = Inr rs \<Longrightarrow> n < length ps \<Longrightarrow>
     metrics_of y (snd (ps ! n)) = Inr (snd (rs ! n))"
proof (induction y ps arbitrary: rs n rule: calc_results.induct)
  case (1 y)
  then show ?case by simp
next
  case (2 y model_name preds rest)
  then show ?case
    by (cases n) (auto split: sum.splits)
qed

lemma getitem_nrows: "getitem df names = Inr X \<Longrightarrow> nrows X = nrows df"
  by (auto simp: getitem_def split: sum.splits)

lemma evaluate_fields:
  assumes "evaluate lib sc data_test = Inr ev"
  shows "getitem data_test features = Inr (X_test ev)"
    and "getitem_col data_test target = Inr (y_test ev)"
    and "transform lib (X_test ev) sc = Inr (scaler_after ev, X_test_scaled ev)"
    and "predict_all lib model_names (X_test_scaled ev) = Inr (predictions ev)"
    and "calc_results (y_test ev) (predictions ev) = Inr (results ev)"
  using assms by (auto simp: evaluate_def split: sum.splits prod.splits)

lemma evaluate_keys:
  assumes "evaluate lib sc data_test = Inr ev"
  shows "map fst (predictions ev) = model_names" and "map fst (results ev) = model_names"
    and "length (predictions ev) = 3" and "length (results ev) = 3"
proof -
  from assms obtain X y sc' Z ps rs where
    p: "predict_all lib model_names Z = Inr ps" and r: "calc_results y ps = Inr rs"
    and ev: "ev = \<lparr>scaler_after = sc', X_test = X, y_test = y, X_test_scaled = Z,
               predictions = ps, results = rs\<rparr>"
    by (auto simp: evaluate_def split: sum.splits prod.splits)
  from p have k: "map fst ps = model_names" by (rule predict_all_keys)
  with r have k': "map fst rs = model_names" by (simp add: calc_results_keys)
  from k ev show "map fst (predictions ev) = model_names" by simp
  from k' ev show "map fst (results ev) = model_names" by simp
  from k have "length ps = length model_names" by (metis length_map)
  with ev show "length (predictions ev) = 3" by (simp add: model_names_def)
  from k' have "length rs = length model_names" by (metis length_map)
  with ev show "length (results ev) = 3" by (simp add: model_names_def)
qed

lemma evaluate_metrics:
  assumes "evaluate lib sc data_test = Inr ev" and "n < 3"
  shows "metrics_of (y_test ev) (snd (predictions ev ! n)) = Inr (snd (results ev ! n))"
proof -
  from assms(1) obtain X y sc' Z ps rs where
    r: "calc_results y ps = Inr rs"
    and ev: "ev = \<lparr>scaler_after = sc', X_test = X, y_test = y, X_test_scaled = Z,
               predictions = ps, results = rs\<rparr>"
    by (auto simp: evaluate_def split: sum.splits prod.splits)
  from evaluate_keys(3) [OF assms(1)] ev have "length ps = 3" by simp
  with assms(2) r have "metrics_of y (snd (ps ! n)) = Inr (snd (rs ! n))"
    by (simp add: calc_results_metrics)
  with ev show ?thesis by simp
qed

section \<open>The metrics of one model\<close>

lemma fin_vals_finite: "fin_vals xs = Inr rs \<Longrightarrow> list_all is_finite xs \<and> length rs = length xs"
proof (induction xs arbitrary: rs rule: fin_vals.induct)
  case 1
  then show ?case by simp
next
  case (2 a xs)
  then show ?case by (auto split: sum.splits)
qed simp_all

lemma mean_squared_error_fields:
  assumes "mean_squared_error y preds = Inr v"
  shows "\<exists>ys. to_floats y = Inr ys \<and> length ys = length preds \<and> ys \<noteq> []
    \<and> list_all is_finite ys \<and> list_all is_finite preds
    \<and> v = rdiv (pairwise_sum (map sq_err (zip ys preds))) (Fin (real (length ys)))"
proof -
  from assms obtain ys a p where ys: "to_floats y = Inr ys" and a: "fin_vals ys = Inr a"
    and p: "fin_vals preds = Inr p" and len: "length a = length p" and ne: "a \<noteq> []"
    and v: "v = rdiv (pairwise_sum (map sq_err (zip ys preds))) (Fin (real (length ys)))"
    by (auto simp: mean_squared_error_def split: sum.splits if_splits)
  from fin_vals_finite [OF a] fin_vals_finite [OF p] len ne
  have "length ys = length preds" "ys \<noteq> []" "list_all is_finite ys" "list_all is_finite preds"
    by auto
  with ys v show ?thesis by blast
qed

lemma sq_errs_nonneg:
  assumes "list_all is_finite ys" and "list_all is_finite ps"
  shows "list_all nonneg_fl (map sq_err (zip ys ps))"
proof -
  have "nonneg_fl (sq_err ab)" if "ab \<in> set (zip ys ps)" for ab
  proof -
    from that have "fst ab \<in> set ys" by (metis prod.collapse set_zip_leftD)
    with assms(1) obtain x where x: "fst ab = Fin x"
      by (cases "fst ab") (auto simp: list_all_iff)
    from that have "snd ab \<in> set ps" by (metis prod.collapse set_zip_rightD)
    with assms(2) obtain z where z: "snd ab = Fin z"
      by (cases "snd ab") (auto simp: list_all_iff)
    from x z have "ab = (Fin x, Fin z)" by (metis prod.collapse)
    then show ?thesis by (simp only: sq_err_nonneg)
  qed
  then show ?thesis by (simp add: list_all_iff)
qed

lemma mean_squared_error_nonneg: "mean_squared_error y preds = Inr v \<Longrightarrow> nonneg_fl v"
proof -
  assume "mean_squared_error y preds = Inr v"
  from mean_squared_error_fields [OF this] obtain ys where
    ne: "ys \<noteq> []" and fin: "list_all is_finite ys" "list_all is_finite preds"
    and v: "v = rdiv (pairwise_sum (map sq_err (zip ys preds))) (Fin (real (length ys)))"
    by blast
  from fin have "nonneg_fl (pairwise_sum (map sq_err (zip ys preds)))"
    by (intro pairwise_sum_nonneg sq_errs_nonneg)
  moreover from ne have "0 < real (length ys)" by simp
  ultimately show ?thesis unfolding v by (rule rdiv_nonneg)
qed

text \<open>A finite mean squared error is a double that is not negative.\<close>

lemma mean_squared_error_double:
  assumes "mean_squared_error y preds = Inr (Fin a)"
  shows "a = 0 \<or> (2 powr (- 1074) \<le> a \<and> a < 2 ^ 1024)"
proof -
  from mean_squared_error_fields [OF assms] obtain ys where
    ne: "ys \<noteq> []"
    and v: "Fin a = rdiv (pairwise_sum (map sq_err (zip ys preds))) (Fin (real (length ys)))"
    by blast
  from mean_squared_error_nonneg [OF assms] have a0: "0 \<le> a" by simp
  from ne have n: "real (length ys) \<noteq> 0" by simp
  obtain s where "Fin a = rd s"
  proof (cases "pairwise_sum (map sq_err (zip ys preds))")
    case (Fin s)
    with v n have "Fin a = rd (s / real (length ys))" by simp
    then show ?thesis by (rule that)
  next
    case PInf
    with v show ?thesis by (simp split: if_splits)
  next
    case NInf
    with v show ?thesis by (simp split: if_splits)
  next
    case NaN
    with v show ?thesis by simp
  qed
  then have r: "rd s = Fin a" by simp
  show ?thesis
  proof (cases "a = 0")
    case True
    then show ?thesis by simp
  next
    case False
    from rd_range [OF r False] a0 show ?thesis by simp
  qed
qed

lemma metrics_of_fields:
  assumes "metrics_of y preds = Inr m"
  shows "mean_squared_error y preds = Inr (MSE m)" and "msqrt (MSE m) = Inr (RMSE m)"
    and "mape_of y preds = Inr (MAPE m)"
  using assms by (auto simp: metrics_of_def split: sum.splits)

text \<open>The square root of the mean squared error, rounded, and squared again.\<close>

lemma rmse_close:
  assumes "mean_squared_error y preds = Inr v" and "msqrt v = Inr r"
  shows "(v = PInf \<and> r = PInf)
    \<or> (\<exists>a b. v = Fin a \<and> r = Fin b \<and> 0 \<le> a \<and> 0 \<le> b \<and> rd (sqrt a) = Fin b
          \<and> \<bar>b\<^sup>2 - a\<bar> \<le> a / 2 ^ 51)"
proof (cases v)
  case (Fin a)
  from mean_squared_error_nonneg [OF assms(1)] Fin have a0: "0 \<le> a" by simp
  with assms(2) Fin have r: "r = rd (sqrt a)" by simp
  from assms(1) Fin have "mean_squared_error y preds = Inr (Fin a)" by simp
  then have "a = 0 \<or> (2 powr (- 1074) \<le> a \<and> a < 2 ^ 1024)"
    by (rule mean_squared_error_double)
  then show ?thesis
  proof
    assume "a = 0"
    with r Fin show ?thesis by (simp add: rd_numeral)
  next
    assume "2 powr (- 1074) \<le> a \<and> a < 2 ^ 1024"
    then obtain b where "rd (sqrt a) = Fin b" "0 \<le> b" "\<bar>b\<^sup>2 - a\<bar> \<le> a / 2 ^ 51"
      using rd_sqrt_close by blast
    with r Fin a0 show ?thesis by simp
  qed
next
  case PInf
  with assms(2) show ?thesis by auto
next
  case NInf
  with mean_squared_error_nonneg [OF assms(1)] show ?thesis by simp
next
  case NaN
  with mean_squared_error_nonneg [OF assms(1)] show ?thesis by simp
qed

section \<open>The size of the held-out part\<close>

text \<open>
  The double nearest to one fifth is a little above one fifth; for every table of at
  most \<open>2\<^sup>5\<^sup>0\<close> rows the rounded product and the ceiling still give one fifth of
  the row count, rounded up.
\<close>

lemma five_test_size: "test_size * 5 = 1 + 1 / 2 ^ 54"
  by (simp add: test_size_def)

lemma rd_nat: "n < 2 ^ 53 \<Longrightarrow> rd (real n) = Fin (real n)"
proof -
  assume "n < 2 ^ 53"
  then have "int n < 2 ^ 53" by (metis of_nat_less_iff of_nat_numeral of_nat_power)
  then have "\<bar>int n\<bar> < 2 ^ 53" by simp
  from rd_int [OF this] show ?thesis by simp
qed

lemma rd_fifth_multiple:
  assumes "1 \<le> k" and "k < 2 ^ 50"
  shows "rd (test_size * real (5 * k)) = Fin (real k)"
proof -
  from ex_power_ivl1 [of 2 k] assms(1) obtain m where m: "2 ^ m \<le> k" "k < 2 ^ (m + 1)"
    by auto
  from m(1) assms(2) have "(2::nat) ^ m < 2 ^ 50" by linarith
  then have m50: "m < 50" by (rule power_less_imp_less_exp [rotated]) simp
  let ?x = "test_size * real (5 * k)"
  let ?P = "(2::real) ^ (52 - m)"
  let ?K = "int k * 2 ^ (52 - m)"
  have "?x = (test_size * 5) * real k" by simp
  also have "\<dots> = real k + real k / 2 ^ 54" by (simp only: five_test_size) (simp add: algebra_simps)
  finally have x: "?x = real k + real k / 2 ^ 54" .
  from assms(2) have "real k < 2 ^ 50" by (metis of_nat_less_iff of_nat_numeral of_nat_power)
  then have small: "real k / 2 ^ 54 < 1" by simp
  have k0: "0 \<le> real k / 2 ^ 54" by simp
  from m(1) have lo: "(2::real) ^ m \<le> real k"
    by (metis of_nat_le_iff of_nat_numeral of_nat_power)
  from m(2) have "k + 1 \<le> 2 ^ (m + 1)" by simp
  then have hi: "real k + 1 \<le> 2 ^ (m + 1)"
    by (metis of_nat_le_iff of_nat_numeral of_nat_power of_nat_add of_nat_1)
  from m50 have "(52 - m) + m = 52" by simp
  then have pm: "?P * 2 ^ m = 2 ^ 52" by (metis power_add)
  have u: "2 powr (real_of_int (int m) - 52) = 2 ^ m / 2 ^ 52"
    by (simp add: powr_diff powr_realpow)
  have Kk: "real_of_int ?K * (2 ^ m / 2 ^ 52) = real k"
  proof -
    have "real_of_int ?K * (2 ^ m / 2 ^ 52) = real k * (?P * 2 ^ m) / 2 ^ 52" by simp
    also have "\<dots> = real k" by (simp only: pm) simp
    finally show ?thesis .
  qed
  have t: "?x / (2 ^ m / 2 ^ 52) = ?x * ?P"
  proof -
    have "?x / (2 ^ m / 2 ^ 52) = ?x * 2 ^ 52 / 2 ^ m" by simp
    also have "\<dots> = ?x * (?P * 2 ^ m) / 2 ^ m" by (simp only: pm)
    also have "\<dots> = ?x * ?P" by simp
    finally show ?thesis .
  qed
  have xP: "?x * ?P = real_of_int ?K + real k * ?P / 2 ^ 54"
    by (simp only: x) (simp add: algebra_simps)
  have "real k * ?P < 2 ^ (m + 1) * ?P" using hi by simp
  also have "\<dots> = 2 * (?P * 2 ^ m)" by simp
  also have "\<dots> = 2 ^ 53" by (simp only: pm) simp
  finally have "real k * ?P / 2 ^ 54 < 1 / 2" by simp
  moreover have "0 \<le> real k * ?P / 2 ^ 54" by simp
  ultimately have near: "real_of_int ?K - 1 / 2 < ?x * ?P" "?x * ?P < real_of_int ?K + 1 / 2"
    unfolding xP by linarith+
  have "rd ?x = Fin (real_of_int ?K * 2 powr (of_int (int m) - 52))"
  proof (rule rd_eval)
    have "2 powr real_of_int (int m) = 2 ^ m" by (simp add: powr_realpow)
    moreover from lo x k0 have "2 ^ m \<le> \<bar>?x\<bar>" by linarith
    ultimately show "2 powr real_of_int (int m) \<le> \<bar>?x\<bar>" by (simp only:)
    from hi x small k0 have "\<bar>?x\<bar> < 2 ^ (m + 1)" by linarith
    moreover have "2 powr (real_of_int (int m) + 1) = 2 ^ (m + 1)"
      by (simp add: powr_add powr_realpow)
    ultimately show "\<bar>?x\<bar> < 2 powr (real_of_int (int m) + 1)" by simp
    show "- 1022 \<le> int m" by simp
    from near show "rne (?x / 2 powr (real_of_int (int m) - 52)) = ?K"
      unfolding u t by (rule rne_near)
    have "real k < 2 ^ 1024"
      using \<open>real k < 2 ^ 50\<close> power_strict_increasing [of 50 1024 "2::real"] by linarith
    then show "\<bar>real_of_int ?K * 2 powr (real_of_int (int m) - 52)\<bar> < 2 ^ 1024"
      unfolding u Kk by simp
  qed
  then show ?thesis unfolding u Kk .
qed

lemma rd_fifth_other:
  assumes "n \<le> 2 ^ 50" and "n mod 5 \<noteq> 0"
  shows "\<exists>y. rd (test_size * real n) = Fin y \<and> real (n div 5) < y \<and> y < real (n div 5) + 1"
proof -
  let ?x = "test_size * real n"
  have x: "?x = real n / 5 + real n / (5 * 2 ^ 54)" by (simp add: test_size_def)
  from assms(2) have "1 \<le> n" by (cases n) simp_all
  then have n1: "1 \<le> real n" by simp
  from assms(1) have n50: "real n \<le> 2 ^ 50"
    by (metis of_nat_le_iff of_nat_numeral of_nat_power)
  have x0: "0 \<le> ?x" by (simp add: test_size_def)
  have "(2::real) powr (- 1022) \<le> 2 powr (- 3)" by (rule powr_mono) simp_all
  also have "\<dots> = 1 / 8" by (simp add: powr_minus_divide)
  also have "\<dots> \<le> ?x" using n1 unfolding x by simp
  finally have lo: "2 powr (- 1022) \<le> \<bar>?x\<bar>" using x0 by simp
  have x48: "?x \<le> 2 ^ 48" using n50 unfolding x by simp
  also have "(2::real) ^ 48 \<le> 2 ^ 1023" by (rule power_increasing) simp_all
  finally have hi: "\<bar>?x\<bar> \<le> 2 ^ 1023" using x0 by simp
  from rd_normal [OF lo hi] obtain y where y: "rd ?x = Fin y" "\<bar>y - ?x\<bar> \<le> \<bar>?x\<bar> / 2 ^ 53"
    by blast
  from x48 x0 have "\<bar>?x\<bar> / 2 ^ 53 \<le> 1 / 32" by simp
  moreover from n50 have "real n / (5 * 2 ^ 54) \<le> 1 / 80" by simp
  moreover have "0 \<le> real n / (5 * 2 ^ 54)" by simp
  ultimately have close: "\<bar>y - real n / 5\<bar> < 1 / 5" using y(2) unfolding x by linarith
  have "n = 5 * (n div 5) + n mod 5" by simp
  then have "real n = 5 * real (n div 5) + real (n mod 5)"
    by (metis of_nat_add of_nat_mult of_nat_numeral)
  then have nd: "real n / 5 = real (n div 5) + real (n mod 5) / 5" by linarith
  from assms(2) have "1 \<le> n mod 5" by simp
  then have r1: "1 \<le> real (n mod 5)" by simp
  have "n mod 5 \<le> 4" by simp
  then have r4: "real (n mod 5) \<le> 4" by (metis of_nat_le_iff of_nat_numeral)
  from close nd r1 r4 have "real (n div 5) < y" "y < real (n div 5) + 1" by linarith+
  with y(1) show ?thesis by blast
qed

lemma n_test_exact:
  assumes "n \<le> 2 ^ 50"
  shows "n_test_of n = Inr ((n + 4) div 5)"
proof -
  from assms have "n < 2 ^ 53"
    using power_strict_increasing [of 50 53 "2::nat"] by linarith
  then have r: "rd (real n) = Fin (real n)" by (rule rd_nat)
  show ?thesis
  proof (cases "n mod 5 = 0")
    case True
    then have n: "n = 5 * (n div 5)" by auto
    show ?thesis
    proof (cases "n div 5 = 0")
      case True
      with n have "n = 0" by simp
      then show ?thesis by (simp add: n_test_of_def rd_numeral)
    next
      case False
      then have "1 \<le> n div 5" by simp
      moreover from assms have "n div 5 < 2 ^ 50" by (simp add: div_less_iff_less_mult)
      ultimately have "rd (test_size * real (5 * (n div 5))) = Fin (real (n div 5))"
        by (rule rd_fifth_multiple)
      with n have "rd (test_size * real n) = Fin (real (n div 5))" by simp
      moreover from n have "(n + 4) div 5 = n div 5" by presburger
      ultimately show ?thesis using r by (simp add: n_test_of_def)
    qed
  next
    case False
    with assms obtain y where y: "rd (test_size * real n) = Fin y"
      "real (n div 5) < y" "y < real (n div 5) + 1"
      using rd_fifth_other by blast
    from y(2,3) have "\<lceil>y\<rceil> = int (n div 5) + 1" by (intro ceiling_unique) simp_all
    then have "nat \<lceil>y\<rceil> = n div 5 + 1" by simp
    moreover from False have "(n + 4) div 5 = n div 5 + 1" by presburger
    ultimately show ?thesis using r y(1) by (simp add: n_test_of_def)
  qed
qed

section \<open>A sample run\<close>

lemma n_test_3: "n_test_of 3 = Inr 1"
  using n_test_exact [of 3] by simp

lemma rd_sqrt_3: "rd (sqrt 3) = Fin (3900231685776981 / 2251799813685248)"
proof -
  have "rd (sqrt 3) = Fin (real_of_int 7800463371553962 * 2 powr (of_int 0 - 52))"
  proof (rule rd_eval)
    have "1 \<le> sqrt 3" by simp
    then show "2 powr real_of_int 0 \<le> \<bar>sqrt 3\<bar>" by simp
    have "sqrt 3 < 2" by (rule real_less_lsqrt) simp_all
    then show "\<bar>sqrt 3\<bar> < 2 powr (real_of_int 0 + 1)" by simp
    show "- 1022 \<le> (0 :: int)" by simp
    show "rne (sqrt 3 / 2 powr (real_of_int 0 - 52)) = 7800463371553962"
    proof (rule rne_near)
      have "15600926743107923 / 9007199254740992 < sqrt 3"
        by (rule real_less_rsqrt) (simp add: power2_eq_square)
      then show "real_of_int 7800463371553962 - 1 / 2 < sqrt 3 / 2 powr (real_of_int 0 - 52)"
        by (simp add: two_powr_neg)
      have "sqrt 3 < 15600926743107925 / 9007199254740992"
        by (rule real_less_lsqrt) (simp_all add: power2_eq_square)
      then show "sqrt 3 / 2 powr (real_of_int 0 - 52) < real_of_int 7800463371553962 + 1 / 2"
        by (simp add: two_powr_neg)
    qed
    show "\<bar>real_of_int 7800463371553962 * 2 powr (real_of_int 0 - 52)\<bar> < 2 ^ 1024"
      by (simp add: two_powr_neg)
  qed
  then show ?thesis by (simp add: two_powr_neg)
qed

lemma rd_sqrt_2: "rd (sqrt 2) = Fin (6369051672525773 / 4503599627370496)"
proof -
  have "rd (sqrt 2) = Fin (real_of_int 6369051672525773 * 2 powr (of_int 0 - 52))"
  proof (rule rd_eval)
    have "1 \<le> sqrt 2" by simp
    then show "2 powr real_of_int 0 \<le> \<bar>sqrt 2\<bar>" by simp
    have "sqrt 2 < 2" by (rule real_less_lsqrt) simp_all
    then show "\<bar>sqrt 2\<bar> < 2 powr (real_of_int 0 + 1)" by simp
    show "- 1022 \<le> (0 :: int)" by simp
    show "rne (sqrt 2 / 2 powr (real_of_int 0 - 52)) = 6369051672525773"
    proof (rule rne_near)
      have "12738103345051545 / 9007199254740992 < sqrt 2"
        by (rule real_less_rsqrt) (simp add: power2_eq_square)
      then show "real_of_int 6369051672525773 - 1 / 2 < sqrt 2 / 2 powr (real_of_int 0 - 52)"
        by (simp add: two_powr_neg)
      have "sqrt 2 < 12738103345051547 / 9007199254740992"
        by (rule real_less_lsqrt) (simp_all add: power2_eq_square)
      then show "sqrt 2 / 2 powr (real_of_int 0 - 52) < real_of_int 6369051672525773 + 1 / 2"
        by (simp add: two_powr_neg)
    qed
    show "\<bar>real_of_int 6369051672525773 * 2 powr (real_of_int 0 - 52)\<bar> < 2 ^ 1024"
      by (simp add: two_powr_neg)
  qed
  then show ?thesis by (simp add: two_powr_neg)
qed

lemma square_of_rounded_sqrt_3:
  "rmul (Fin (3900231685776981 / 2251799813685248)) (Fin (3900231685776981 / 2251799813685248))
     = Fin (6755399441055743 / 2251799813685248)"
proof -
  let ?x = "3900231685776981 / 2251799813685248 * (3900231685776981 / 2251799813685248) :: real"
  have "rd ?x = Fin (real_of_int 6755399441055743 * 2 powr (of_int 1 - 52))"
  proof (rule rd_eval)
    show "2 powr real_of_int 1 \<le> \<bar>?x\<bar>" by simp
    show "\<bar>?x\<bar> < 2 powr (real_of_int 1 + 1)" by simp
    show "- 1022 \<le> (1 :: int)" by simp
    show "rne (?x / 2 powr (real_of_int 1 - 52)) = 6755399441055743"
      by (simp add: rne_def two_powr_neg)
    show "\<bar>real_of_int 6755399441055743 * 2 powr (real_of_int 1 - 52)\<bar> < 2 ^ 1024"
      by (simp add: two_powr_neg)
  qed
  then show ?thesis by (simp add: two_powr_neg)
qed

lemma mse_sample:
  "mean_squared_error [Num (Fin 0), Num (Fin 3), Num (Fin 4)] [Fin 2, Fin 2, Fin 2] = Inr (Fin 3)"
  by (simp add: mean_squared_error_def sq_err_def pairwise_sum.simps rd_numeral)

lemma metrics_sample:
  "metrics_of [Num (Fin 0), Num (Fin 3), Num (Fin 4)] [Fin 2, Fin 2, Fin 2]
     = Inr \<lparr>RMSE = Fin (3900231685776981 / 2251799813685248), MSE = Fin 3, MAPE = PInf\<rparr>"
  by (simp add: metrics_of_def mse_sample rd_sqrt_3 mape_of_def ape_def series_mean_def)

lemma sample_train: "train sample_lib sample_csv = Inr sample_trained"
  by (simp add: sample_trained_def train_def sample_lib_def sample_csv_def features_def
      target_def getitem_def getitem_col_def train_test_split_def n_test_3 train_idx_def
      valid_idx_def take_rows_def take_cells_def fit_transform_def transform_def
      StandardScaler_def)

lemma sample_scaler:
  "stats (scaler sample_trained) = Some 6" and "length (calls (scaler sample_trained)) = 2"
  by (simp_all add: sample_trained_def train_def sample_lib_def sample_csv_def features_def
      target_def getitem_def getitem_col_def train_test_split_def n_test_3 train_idx_def
      valid_idx_def take_rows_def take_cells_def fit_transform_def transform_def
      StandardScaler_def)

lemma sample_evaluate_exists:
  "\<exists>ev. evaluate sample_lib (scaler sample_trained) sample_csv = Inr ev"
  by (simp add: evaluate_def transform_def sample_scaler sample_lib_def sample_csv_def
      features_def target_def getitem_def getitem_col_def model_names_def metrics_sample
      numeral_3_eq_3)

lemma sample_evaluate:
  "evaluate sample_lib (scaler sample_trained) sample_csv = Inr sample_evaluated"
  using sample_evaluate_exists by (auto simp: sample_evaluated_def)

lemma sample_run:
  "train_and_evaluate sample_lib sample_csv sample_csv = Inr (sample_trained, sample_evaluated)"
  by (simp add: train_and_evaluate_def sample_train sample_evaluate)

lemma sample_y_test: "y_test sample_evaluated = [Num (Fin 0), Num (Fin 3), Num (Fin 4)]"
  using evaluate_fields(2) [OF sample_evaluate]
  by (simp add: sample_csv_def target_def getitem_col_def)

lemma sample_predictions:
  "predictions sample_evaluated =
     [(''lr'', [Fin 2, Fin 2, Fin 2]), (''rf'', [Fin 2, Fin 2, Fin 2]),
      (''svm'', [Fin 2, Fin 2, Fin 2])]"
proof -
  note f = evaluate_fields [OF sample_evaluate]
  from f(1) have "nrows (X_test sample_evaluated) = 3"
    by (simp add: getitem_nrows sample_csv_def)
  with f(3) have "X_test_scaled sample_evaluated = [[], [], []]"
    by (auto simp: transform_def sample_scaler sample_lib_def numeral_3_eq_3)
  with f(4) show ?thesis
    by (simp add: model_names_def sample_lib_def)
qed

section \<open>RMSE and MSE\<close>

lemma sample_results:
  "results sample_evaluated =
     [(''lr'', \<lparr>RMSE = Fin (3900231685776981 / 2251799813685248), MSE = Fin 3, MAPE = PInf\<rparr>),
      (''rf'', \<lparr>RMSE = Fin (3900231685776981 / 2251799813685248), MSE = Fin 3, MAPE = PInf\<rparr>),
      (''svm'', \<lparr>RMSE = Fin (3900231685776981 / 2251799813685248), MSE = Fin 3, MAPE = PInf\<rparr>)]"
  using evaluate_fields(5) [OF sample_evaluate]
  by (simp add: sample_y_test sample_predictions metrics_sample)

text \<open>A mean squared error that overflows: both metrics are \<^verbatim>\<open>inf\<close>.\<close>

lemma rd_pow600: "rd (2 ^ 600) = Fin (2 ^ 600)"
proof -
  have "rd (2 ^ 600) = Fin (real_of_int (2 ^ 52) * 2 powr (of_int 600 - 52))"
  proof (rule rd_eval)
    show "2 powr real_of_int 600 \<le> \<bar>2 ^ 600\<bar>" by simp
    show "\<bar>2 ^ 600\<bar> < 2 powr (real_of_int 600 + 1)" by simp
    show "- 1022 \<le> (600 :: int)" by simp
    show "rne (2 ^ 600 / 2 powr (real_of_int 600 - 52)) = 2 ^ 52" by (simp add: rne_def)
    show "\<bar>real_of_int (2 ^ 52) * 2 powr (real_of_int 600 - 52)\<bar> < 2 ^ 1024" by simp
  qed
  then show ?thesis by simp
qed

lemma rd_pow1200: "rd (2 ^ 600 * 2 ^ 600) = PInf"
proof -
  define x :: real where "x = 2 ^ 1200"
  have e: "expo x = 1200" unfolding x_def by (rule expo_eq) simp_all
  have u: "ulp x = 2 ^ 1148" by (simp add: ulp_def e)
  have r: "rne (x / 2 ^ 1148) = 2 ^ 52" unfolding x_def by (simp add: rne_def)
  have y: "real_of_int (2 ^ 52) * 2 ^ 1148 = x" unfolding x_def by simp
  have "0 < x" and "2 ^ 1024 \<le> \<bar>x\<bar>" unfolding x_def by simp_all
  then have "rd x = PInf" by (simp only: rd_def u r y) simp
  then show ?thesis unfolding x_def by simp
qed

lemma metrics_overflow:
  "metrics_of [Num (Fin (2 ^ 600))] [Fin 0] = Inr \<lparr>RMSE = PInf, MSE = PInf, MAPE = Fin 100\<rparr>"
  using rd_pow600 rd_pow1200
  by (simp add: metrics_of_def mean_squared_error_def sq_err_def pairwise_sum.simps
      mape_of_def ape_def series_mean_def)

text \<open>
  C6, as stated, fails. The test target is 0, 3, 4 and every model predicts 2 for every
  row: the squared errors are 4, 1, 4, the reported MSE is 3.0, and the reported RMSE is
  the double nearest to the square root of 3, \<open>3900231685776981 / 2\<^sup>5\<^sup>1\<close>. Its square is
  not 3, neither as a real number nor after rounding: the floating-point product of the
  RMSE with itself is \<open>6755399441055743 / 2\<^sup>5\<^sup>1\<close>, that is 2.9999999999999996.
\<close>

theorem rmse_squared_not_mse_counterexample:
  "evaluate sample_lib (scaler sample_trained) sample_csv = Inr sample_evaluated
   \<and> fst (results sample_evaluated ! 1) = ''rf''
   \<and> MSE (snd (results sample_evaluated ! 1)) = Fin 3
   \<and> RMSE (snd (results sample_evaluated ! 1)) = Fin (3900231685776981 / 2251799813685248)
   \<and> rmul (RMSE (snd (results sample_evaluated ! 1))) (RMSE (snd (results sample_evaluated ! 1)))
       = Fin (6755399441055743 / 2251799813685248)
   \<and> rmul (RMSE (snd (results sample_evaluated ! 1))) (RMSE (snd (results sample_evaluated ! 1)))
       \<noteq> MSE (snd (results sample_evaluated ! 1))
   \<and> fmul (RMSE (snd (results sample_evaluated ! 1))) (RMSE (snd (results sample_evaluated ! 1)))
       \<noteq> MSE (snd (results sample_evaluated ! 1))"
  using sample_evaluate square_of_rounded_sqrt_3
  by (simp add: sample_results)

text \<open>
  C6, amended. After evaluation, for each of the three models, the stored metrics come
  from that model's stored predictions. The MSE is the mean of the squared differences
  between the test target and the predictions, computed in double precision (each
  difference, square, partial sum and the final quotient rounded; for fewer than eight
  rows the sum runs from left to right). The RMSE is \<^verbatim>\<open>math.sqrt\<close> of that same MSE
  value: the correctly rounded square root. So the RMSE squared is the MSE only up to
  the rounding of the square root: either both are \<^verbatim>\<open>inf\<close>, or both are finite and not
  negative and the square of the RMSE differs from the MSE by at most \<open>MSE / 2\<^sup>5\<^sup>1\<close>.
\<close>

theorem rmse_is_rounded_sqrt_of_mse:
  assumes "evaluate lib sc data_test = Inr ev" and "n < 3"
  shows "fst (results ev ! n) = model_names ! n
    \<and> fst (predictions ev ! n) = model_names ! n
    \<and> (\<exists>ys. to_floats (y_test ev) = Inr ys \<and> ys \<noteq> []
          \<and> length ys = length (snd (predictions ev ! n))
          \<and> MSE (snd (results ev ! n))
              = rdiv (pairwise_sum (map sq_err (zip ys (snd (predictions ev ! n)))))
                  (Fin (real (length ys)))
          \<and> (length ys < 8 \<longrightarrow>
               MSE (snd (results ev ! n))
                 = rdiv (foldl radd (Fin 0)
                      (map (\<lambda>ap. rmul (rsub (fst ap) (snd ap)) (rsub (fst ap) (snd ap)))
                         (zip ys (snd (predictions ev ! n)))))
                     (Fin (real (length ys)))))
    \<and> msqrt (MSE (snd (results ev ! n))) = Inr (RMSE (snd (results ev ! n)))
    \<and> ((MSE (snd (results ev ! n)) = PInf \<and> RMSE (snd (results ev ! n)) = PInf)
       \<or> (\<exists>a r. MSE (snd (results ev ! n)) = Fin a \<and> RMSE (snd (results ev ! n)) = Fin r
             \<and> 0 \<le> a \<and> 0 \<le> r \<and> rd (sqrt a) = Fin r \<and> \<bar>r\<^sup>2 - a\<bar> \<le> a / 2 ^ 51))"
proof -
  let ?m = "snd (results ev ! n)" and ?p = "snd (predictions ev ! n)"
  note k = evaluate_keys [OF assms(1)]
  from assms(2) k(2,4) have a: "fst (results ev ! n) = model_names ! n"
    by (metis nth_map)
  from assms(2) k(1,3) have b: "fst (predictions ev ! n) = model_names ! n"
    by (metis nth_map)
  note f = metrics_of_fields [OF evaluate_metrics [OF assms]]
  from mean_squared_error_fields [OF f(1)] obtain ys where
    ys: "to_floats (y_test ev) = Inr ys" "ys \<noteq> []" "length ys = length ?p"
    and v: "MSE ?m = rdiv (pairwise_sum (map sq_err (zip ys ?p))) (Fin (real (length ys)))"
    by blast
  have s: "length ys < 8 \<longrightarrow>
      MSE ?m = rdiv (foldl radd (Fin 0)
          (map (\<lambda>ap. rmul (rsub (fst ap) (snd ap)) (rsub (fst ap) (snd ap))) (zip ys ?p)))
        (Fin (real (length ys)))"
  proof
    assume "length ys < 8"
    with ys(3) have "length (map sq_err (zip ys ?p)) < 8" by simp
    then have "pairwise_sum (map sq_err (zip ys ?p)) = foldl radd (Fin 0) (map sq_err (zip ys ?p))"
      by (simp add: pairwise_sum.simps)
    moreover have "sq_err = (\<lambda>ap. rmul (rsub (fst ap) (snd ap)) (rsub (fst ap) (snd ap)))"
      by (rule ext) (simp add: sq_err_def)
    ultimately show "MSE ?m = rdiv (foldl radd (Fin 0)
          (map (\<lambda>ap. rmul (rsub (fst ap) (snd ap)) (rsub (fst ap) (snd ap))) (zip ys ?p)))
        (Fin (real (length ys)))"
      using v by simp
  qed
  from ys v s have c: "\<exists>ys. to_floats (y_test ev) = Inr ys \<and> ys \<noteq> []
      \<and> length ys = length ?p
      \<and> MSE ?m = rdiv (pairwise_sum (map sq_err (zip ys ?p))) (Fin (real (length ys)))
      \<and> (length ys < 8 \<longrightarrow>
           MSE ?m = rdiv (foldl radd (Fin 0)
               (map (\<lambda>ap. rmul (rsub (fst ap) (snd ap)) (rsub (fst ap) (snd ap))) (zip ys ?p)))
             (Fin (real (length ys))))"
    by (intro exI [of _ ys] conjI)
  note d = rmse_close [OF f(1,2)]
  from a b c f(2) d show ?thesis by (intro conjI)
qed

theorem rmse_is_rounded_sqrt_of_mse_witness:
  "evaluate sample_lib (scaler sample_trained) sample_csv = Inr sample_evaluated
   \<and> (1::nat) < 3
   \<and> fst (results sample_evaluated ! 1) = ''rf''
   \<and> MSE (snd (results sample_evaluated ! 1)) = Fin 3
   \<and> msqrt (Fin 3) = Inr (RMSE (snd (results sample_evaluated ! 1)))
   \<and> RMSE (snd (results sample_evaluated ! 1)) = Fin (3900231685776981 / 2251799813685248)"
proof -
  have n: "(1::nat) < 3" by simp
  have m: "MSE (snd (results sample_evaluated ! 1)) = Fin 3" by (simp add: sample_results)
  from rmse_is_rounded_sqrt_of_mse [OF sample_evaluate n]
  have "msqrt (MSE (snd (results sample_evaluated ! 1)))
      = Inr (RMSE (snd (results sample_evaluated ! 1)))"
    and "fst (results sample_evaluated ! 1) = model_names ! 1"
    by blast+
  with m sample_evaluate show ?thesis
    by (simp add: model_names_def rd_sqrt_3)
qed

section \<open>MAPE on a zero target\<close>

lemma fabs_not_NInf: "fabs x \<noteq> NInf" and NInf_not_fabs: "NInf \<noteq> fabs x"
  by (cases x; simp)+

lemma ape_zero_actual: "p \<noteq> Fin 0 \<Longrightarrow> p \<noteq> NaN \<Longrightarrow> ape (Fin 0) p = PInf"
  by (cases p) (auto simp: ape_def)

lemma foldl_fadd_PInf: "NaN \<notin> set vs \<Longrightarrow> NInf \<notin> set vs \<Longrightarrow> foldl fadd PInf vs = PInf"
proof (induction vs)
  case Nil
  then show ?case by simp
next
  case (Cons v vs)
  then show ?case by (cases v) auto
qed

lemma foldl_fadd_has_PInf:
  "NaN \<notin> set vs \<Longrightarrow> NInf \<notin> set vs \<Longrightarrow> PInf \<in> set vs \<Longrightarrow> foldl fadd (Fin a) vs = PInf"
proof (induction vs arbitrary: a)
  case Nil
  then show ?case by simp
next
  case (Cons v vs)
  then show ?case by (cases v) (auto simp: foldl_fadd_PInf)
qed

lemma series_mean_PInf:
  assumes "NInf \<notin> set xs" and "PInf \<in> set xs"
  shows "series_mean xs = PInf"
proof -
  let ?vals = "filter (\<lambda>v. v \<noteq> NaN) xs"
  from assms have "NaN \<notin> set ?vals" "NInf \<notin> set ?vals" "PInf \<in> set ?vals" by auto
  then have "foldl fadd (Fin 0) ?vals = PInf" by (rule foldl_fadd_has_PInf)
  moreover from \<open>PInf \<in> set ?vals\<close> have "?vals \<noteq> []"
    by (metis length_pos_if_in_set length_greater_0_conv)
  ultimately show ?thesis by (simp add: series_mean_def Let_def)
qed

lemma to_floats_nth:
  "to_floats y = Inr ys \<Longrightarrow> i < length y \<Longrightarrow> y ! i = Num v \<Longrightarrow> i < length ys \<and> ys ! i = v"
proof (induction y arbitrary: ys i rule: to_floats.induct)
  case 1
  then show ?case by simp
next
  case (2 w xs)
  then show ?case by (cases i) (auto split: sum.splits)
next
  case (3 xs)
  then show ?case by (cases i) (auto split: sum.splits)
qed simp_all

lemma mape_of_zero_actual:
  assumes "mape_of y preds = Inr v" and "i < length y" and "y ! i = Num (Fin 0)"
    and "preds ! i \<noteq> Fin 0" and "preds ! i \<noteq> NaN"
  shows "v = PInf"
proof -
  from assms(1) obtain ys where ys: "to_floats y = Inr ys" and len: "length ys = length preds"
    and v: "v = fmul (series_mean (map (\<lambda>ap. ape (fst ap) (snd ap)) (zip ys preds))) (Fin 100)"
    by (auto simp: mape_of_def split: sum.splits if_splits)
  let ?apes = "map (\<lambda>ap. ape (fst ap) (snd ap)) (zip ys preds)"
  from to_floats_nth [OF ys assms(2,3)] have i: "i < length ys" and z: "ys ! i = Fin 0"
    by simp_all
  from i len z have "?apes ! i = ape (Fin 0) (preds ! i)" by simp
  with assms(4,5) have "?apes ! i = PInf" by (simp add: ape_zero_actual)
  moreover from i len have "i < length ?apes" by simp
  ultimately have "PInf \<in> set ?apes" by (metis nth_mem)
  moreover have "NInf \<notin> set ?apes" by (auto simp: ape_def NInf_not_fabs)
  ultimately have "series_mean ?apes = PInf" by (simp add: series_mean_PInf)
  with v show ?thesis by simp
qed

lemma metrics_of_zero_actual:
  assumes "metrics_of y preds = Inr m" and "i < length y" and "y ! i = Num (Fin 0)"
    and "preds ! i \<noteq> Fin 0"
  shows "MAPE m = PInf"
proof -
  note f = metrics_of_fields [OF assms(1)]
  from mean_squared_error_fields [OF f(1)] obtain ys where
    ys: "to_floats y = Inr ys" and len: "length ys = length preds"
    and fin: "list_all is_finite preds"
    by blast
  from len to_floats_nth [OF ys assms(2,3)] have "i < length preds" by simp
  with fin have "is_finite (preds ! i)" by (simp add: list_all_length)
  then have "preds ! i \<noteq> NaN" by (cases "preds ! i") simp_all
  with f(3) assms(2-4) show ?thesis by (rule mape_of_zero_actual)
qed

lemma mse_of_0_4:
  "mean_squared_error [Num (Fin 0), Num (Fin 4)] [Fin 0, Fin 2] = Inr (Fin 2)"
  by (simp add: mean_squared_error_def sq_err_def pairwise_sum.simps rd_numeral)

text \<open>
  C2, as stated, fails: with actual values 0 and 4 and predictions 0 and 2, the row
  with the zero target gives 0/0 = NaN, which the mean over the series skips, and the
  MAPE is the finite number 50.
\<close>

theorem mape_zero_actual_finite_counterexample:
  "Num (Fin 0) \<in> set [Num (Fin 0), Num (Fin 4)]
   \<and> metrics_of [Num (Fin 0), Num (Fin 4)] [Fin 0, Fin 2]
       = Inr \<lparr>RMSE = Fin (6369051672525773 / 4503599627370496), MSE = Fin 2,
              MAPE = Fin 50\<rparr>
   \<and> is_finite (Fin 50)"
  by (simp add: metrics_of_def mse_of_0_4 rd_sqrt_2 mape_of_def ape_def series_mean_def)

text \<open>
  C2, amended. After evaluation, for each of the three models: when some test row has
  a zero actual value and the model's prediction for that row is not zero, the stored
  MAPE is plus infinity. The zero target is not handled specially.
\<close>

theorem mape_infinite_on_zero_actual:
  assumes "evaluate lib sc data_test = Inr ev" and "n < 3"
    and "i < length (y_test ev)" and "y_test ev ! i = Num (Fin 0)"
    and "snd (predictions ev ! n) ! i \<noteq> Fin 0"
  shows "MAPE (snd (results ev ! n)) = PInf"
  using evaluate_metrics [OF assms(1,2)] assms(3-5) by (rule metrics_of_zero_actual)

theorem mape_infinite_on_zero_actual_witness:
  "evaluate sample_lib (scaler sample_trained) sample_csv = Inr sample_evaluated
   \<and> (1::nat) < 3 \<and> 0 < length (y_test sample_evaluated)
   \<and> y_test sample_evaluated ! 0 = Num (Fin 0)
   \<and> snd (predictions sample_evaluated ! 1) ! 0 = Fin 2
   \<and> MAPE (snd (results sample_evaluated ! 1)) = PInf"
proof -
  have n: "(1::nat) < 3" by simp
  have i: "0 < length (y_test sample_evaluated)" by (simp add: sample_y_test)
  have z: "y_test sample_evaluated ! 0 = Num (Fin 0)" by (simp add: sample_y_test)
  have p: "snd (predictions sample_evaluated ! 1) ! 0 = Fin 2" by (simp add: sample_predictions)
  then have p': "snd (predictions sample_evaluated ! 1) ! 0 \<noteq> Fin 0" by simp
  from mape_infinite_on_zero_actual [OF sample_evaluate n i z p'] sample_evaluate n i z p
  show ?thesis by simp
qed

section \<open>The scaler and the feature columns\<close>

lemma train_fields:
  assumes "train lib data_train = Inr t"
  shows "\<exists>X_train y_train y_va sc1.
      getitem data_train features = Inr X_train
    \<and> getitem_col data_train target = Inr y_train
    \<and> train_test_split lib X_train y_train
        = Inr (X_train_split t, X_valid_split t, y_train_split t, y_va)
    \<and> fit_transform lib (X_train_split t) StandardScaler = Inr (sc1, X_train_scaled t)
    \<and> transform lib (X_valid_split t) sc1 = Inr (scaler t, X_valid_scaled t)"
  using assms by (auto simp: train_def split: sum.splits prod.splits)

lemma train_and_evaluate_fields:
  assumes "train_and_evaluate lib data_train data_test = Inr (t, ev)"
  shows "train lib data_train = Inr t" and "evaluate lib (scaler t) data_test = Inr ev"
  using assms by (auto simp: train_and_evaluate_def split: sum.splits)

lemma train_test_split_fields:
  assumes "train_test_split lib X y = Inr (X_tr, X_va, y_tr, y_va)"
  shows "\<exists>n_test. n_test_of (nrows X) = Inr n_test \<and> n_test < nrows X
    \<and> take_rows X (train_idx lib (nrows X) n_test) = Inr X_tr
    \<and> take_rows X (valid_idx lib (nrows X) n_test) = Inr X_va"
  using assms by (auto simp: train_test_split_def split: sum.splits if_splits)

lemma take_rows_fields:
  assumes "take_rows X idx = Inr X'"
  shows "nrows X' = length idx"
    and "cols X' = map (\<lambda>c. (fst c, map (\<lambda>i. snd c ! i) idx)) (cols X)"
  using assms by (auto simp: take_rows_def split: if_splits)

lemma fit_transform_fields:
  assumes "fit_transform lib X sc = Inr (sc', Z)"
  shows "\<exists>p. sc_fit lib X = Inr p \<and> sc_apply lib p X = Inr Z
    \<and> stats sc' = Some p \<and> calls sc' = calls sc @ [Fit_transform X]"
  using assms by (auto simp: fit_transform_def split: sum.splits)

lemma transform_fields:
  assumes "transform lib X sc = Inr (sc', Z)"
  shows "\<exists>p. stats sc = Some p \<and> sc_apply lib p X = Inr Z
    \<and> stats sc' = Some p \<and> calls sc' = calls sc @ [Transform X]"
  using assms by (auto simp: transform_def split: sum.splits option.splits)

lemma lookup_cols_names: "lookup_cols cs names = Inr r \<Longrightarrow> map fst r = names"
  by (induction names arbitrary: r) (auto split: sum.splits option.splits)

lemma lookup_cols_nth:
  "lookup_cols cs names = Inr r \<Longrightarrow> k < length names \<Longrightarrow>
     \<exists>xs. map_of cs (names ! k) = Some xs \<and> r ! k = (names ! k, xs)"
proof (induction names arbitrary: r k)
  case Nil
  then show ?case by simp
next
  case (Cons a names)
  then show ?case by (cases k) (auto split: sum.splits option.splits)
qed

lemma getitem_colnames: "getitem df names = Inr X \<Longrightarrow> colnames X = names"
  by (auto simp: getitem_def colnames_def lookup_cols_names split: sum.splits)

lemma getitem_nth:
  assumes "getitem df names = Inr X" and "k < length names"
  shows "\<exists>xs. map_of (cols df) (names ! k) = Some xs \<and> cols X ! k = (names ! k, xs)"
proof -
  from assms(1) have "lookup_cols (cols df) names = Inr (cols X)"
    by (auto simp: getitem_def split: sum.splits)
  from lookup_cols_nth [OF this assms(2)] show ?thesis .
qed

lemma getitem_ncols: "getitem df names = Inr X \<Longrightarrow> length (cols X) = length names"
  using getitem_colnames [of df names X] by (auto simp: colnames_def dest: arg_cong [of _ _ length])

lemma take_rows_colnames: "take_rows X idx = Inr X' \<Longrightarrow> colnames X' = colnames X"
  by (auto simp: take_rows_def colnames_def comp_def split: if_splits)

text \<open>A permutation of the row positions, cut after its first \<open>m\<close> entries.\<close>

lemma perm_split:
  assumes "distinct p" and "set p = {0..<n}" and "m < n"
  shows "length p = n"
    and "length (take (n - m) (drop m p)) = n - m"
    and "distinct (take (n - m) (drop m p))"
    and "set (take (n - m) (drop m p)) \<subseteq> {0..<n}"
    and "set (take (n - m) (drop m p)) \<inter> set (take m p) = {}"
proof -
  from distinct_card [OF assms(1)] assms(2) show len: "length p = n" by simp
  then show "length (take (n - m) (drop m p)) = n - m" by simp
  from assms(1) show "distinct (take (n - m) (drop m p))" by simp
  have "set (take (n - m) (drop m p)) \<subseteq> set p"
    by (meson in_set_dropD in_set_takeD subsetI)
  with assms(2) show "set (take (n - m) (drop m p)) \<subseteq> {0..<n}" by simp
  from len have "take (n - m) (drop m p) = drop m p" by simp
  moreover from assms(1) have "set (take m p) \<inter> set (drop m p) = {}"
    by (rule set_take_disj_set_drop_if_distinct) simp
  ultimately show "set (take (n - m) (drop m p)) \<inter> set (take m p) = {}" by auto
qed

text \<open>What a run of the training cell followed by the evaluation cell does to the scaler.\<close>

lemma scaler_history:
  assumes "train lib data_train = Inr t" and "evaluate lib (scaler t) data_test = Inr ev"
  shows "\<exists>X_train n_test p.
      getitem data_train features = Inr X_train
    \<and> n_test_of (nrows X_train) = Inr n_test
    \<and> n_test < nrows X_train
    \<and> take_rows X_train (train_idx lib (nrows X_train) n_test) = Inr (X_train_split t)
    \<and> take_rows X_train (valid_idx lib (nrows X_train) n_test) = Inr (X_valid_split t)
    \<and> sc_fit lib (X_train_split t) = Inr p
    \<and> sc_apply lib p (X_train_split t) = Inr (X_train_scaled t)
    \<and> stats (scaler t) = Some p
    \<and> stats (scaler_after ev) = Some p
    \<and> getitem data_test features = Inr (X_test ev)
    \<and> sc_apply lib p (X_test ev) = Inr (X_test_scaled ev)
    \<and> calls (scaler_after ev)
        = [Fit_transform (X_train_split t), Transform (X_valid_split t), Transform (X_test ev)]"
proof -
  from train_fields [OF assms(1)] obtain X_train y_train y_va sc1 where
    g: "getitem data_train features = Inr X_train"
    and s: "train_test_split lib X_train y_train
        = Inr (X_train_split t, X_valid_split t, y_train_split t, y_va)"
    and f: "fit_transform lib (X_train_split t) StandardScaler = Inr (sc1, X_train_scaled t)"
    and v: "transform lib (X_valid_split t) sc1 = Inr (scaler t, X_valid_scaled t)"
    by blast
  from train_test_split_fields [OF s] obtain n_test where
    sp: "n_test_of (nrows X_train) = Inr n_test" "n_test < nrows X_train"
      "take_rows X_train (train_idx lib (nrows X_train) n_test) = Inr (X_train_split t)"
      "take_rows X_train (valid_idx lib (nrows X_train) n_test) = Inr (X_valid_split t)"
    by blast
  from fit_transform_fields [OF f] obtain p where
    p: "sc_fit lib (X_train_split t) = Inr p"
    and a1: "sc_apply lib p (X_train_split t) = Inr (X_train_scaled t)"
    and p1: "stats sc1 = Some p"
    and c1: "calls sc1 = [Fit_transform (X_train_split t)]"
    by (auto simp: StandardScaler_def)
  from transform_fields [OF v] p1 c1 have
    p2: "stats (scaler t) = Some p"
    and c2: "calls (scaler t) = [Fit_transform (X_train_split t), Transform (X_valid_split t)]"
    by auto
  note e = evaluate_fields [OF assms(2)]
  from transform_fields [OF e(3)] p2 c2 have
    a: "sc_apply lib p (X_test ev) = Inr (X_test_scaled ev)"
    and p3: "stats (scaler_after ev) = Some p"
    and c3: "calls (scaler_after ev)
        = [Fit_transform (X_train_split t), Transform (X_valid_split t), Transform (X_test ev)]"
    by auto
  from g sp p a1 p2 p3 e(1) a c3 show ?thesis by blast
qed

text \<open>
  C3. The training cell followed by the evaluation cell, for a table of \<open>n\<close> training
  rows whose shuffled positions are a permutation of \<open>0, \<dots>, n - 1\<close>. The split holds
  out \<open>n_test = ceil(0.2 * n)\<close> rows, which for \<open>n\<close> up to \<open>2\<^sup>5\<^sup>0\<close> is one fifth of \<open>n\<close>
  rounded up, and keeps the other \<open>n - n_test\<close> rows, at least one, for training: the
  positions after the first \<open>n_test\<close> of the permutation, all distinct, all rows of the
  table, none of them held out. The scaler is fitted by exactly one call, and the table
  given to that call has exactly the feature columns, each holding the cells of that
  column of the training data at the kept positions and nothing else. The statistics
  learned there are the ones the scaler holds after training and still holds after
  evaluation; the scaled training table and the scaled test table are the training
  split and the feature columns of the test data, unchanged, standardized with exactly
  those statistics.
\<close>

theorem scaler_fitted_once_on_training_split:
  assumes "train_and_evaluate lib data_train data_test = Inr (t, ev)"
    and "distinct (permutation lib (nrows data_train))"
    and "set (permutation lib (nrows data_train)) = {0..<nrows data_train}"
  shows "\<exists>n_test idx p.
      n_test_of (nrows data_train) = Inr n_test
    \<and> (nrows data_train \<le> 2 ^ 50 \<longrightarrow> n_test = (nrows data_train + 4) div 5)
    \<and> n_test < nrows data_train
    \<and> idx = take (nrows data_train - n_test) (drop n_test (permutation lib (nrows data_train)))
    \<and> length idx = nrows data_train - n_test
    \<and> distinct idx
    \<and> set idx \<subseteq> {0..<nrows data_train}
    \<and> set idx \<inter> set (take n_test (permutation lib (nrows data_train))) = {}
    \<and> nrows (X_train_split t) = length idx
    \<and> length (cols (X_train_split t)) = length features
    \<and> (\<forall>k<length features. \<exists>xs. map_of (cols data_train) (features ! k) = Some xs
          \<and> cols (X_train_split t) ! k = (features ! k, map (\<lambda>i. xs ! i) idx))
    \<and> calls (scaler_after ev)
        = [Fit_transform (X_train_split t), Transform (X_valid_split t), Transform (X_test ev)]
    \<and> filter is_fit (calls (scaler_after ev)) = [Fit_transform (X_train_split t)]
    \<and> sc_fit lib (X_train_split t) = Inr p
    \<and> sc_apply lib p (X_train_split t) = Inr (X_train_scaled t)
    \<and> stats (scaler t) = Some p
    \<and> stats (scaler_after ev) = Some p
    \<and> nrows (X_test ev) = nrows data_test
    \<and> length (cols (X_test ev)) = length features
    \<and> (\<forall>k<length features. \<exists>xs. map_of (cols data_test) (features ! k) = Some xs
          \<and> cols (X_test ev) ! k = (features ! k, xs))
    \<and> sc_apply lib p (X_test ev) = Inr (X_test_scaled ev)"
proof -
  let ?n = "nrows data_train"
  note te = train_and_evaluate_fields [OF assms(1)]
  from scaler_history [OF te] obtain X_train n_test p where
    g: "getitem data_train features = Inr X_train"
    and nt: "n_test_of (nrows X_train) = Inr n_test" "n_test < nrows X_train"
    and tr: "take_rows X_train (train_idx lib (nrows X_train) n_test) = Inr (X_train_split t)"
    and h: "sc_fit lib (X_train_split t) = Inr p"
      "sc_apply lib p (X_train_split t) = Inr (X_train_scaled t)"
      "stats (scaler t) = Some p"
      "stats (scaler_after ev) = Some p"
      "sc_apply lib p (X_test ev) = Inr (X_test_scaled ev)"
    and gt: "getitem data_test features = Inr (X_test ev)"
    and c: "calls (scaler_after ev)
        = [Fit_transform (X_train_split t), Transform (X_valid_split t), Transform (X_test ev)]"
    by blast
  define idx where "idx = take (?n - n_test) (drop n_test (permutation lib ?n))"
  from g have n: "nrows X_train = ?n" by (rule getitem_nrows)
  from nt n have nt': "n_test_of ?n = Inr n_test" "n_test < ?n" by simp_all
  have ex: "?n \<le> 2 ^ 50 \<longrightarrow> n_test = (?n + 4) div 5"
  proof
    assume "?n \<le> 2 ^ 50"
    from n_test_exact [OF this] nt'(1) show "n_test = (?n + 4) div 5" by simp
  qed
  note ps = perm_split [OF assms(2,3) nt'(2), folded idx_def]
  from tr n have tr': "take_rows X_train idx = Inr (X_train_split t)"
    by (simp add: train_idx_def idx_def)
  note tf = take_rows_fields [OF tr']
  from tf(2) getitem_ncols [OF g] have nc: "length (cols (X_train_split t)) = length features"
    by simp
  have col: "\<forall>k<length features. \<exists>xs. map_of (cols data_train) (features ! k) = Some xs
      \<and> cols (X_train_split t) ! k = (features ! k, map (\<lambda>i. xs ! i) idx)"
  proof (intro allI impI)
    fix k assume k: "k < length features"
    from getitem_nth [OF g k] obtain xs where
      xs: "map_of (cols data_train) (features ! k) = Some xs"
        "cols X_train ! k = (features ! k, xs)"
      by blast
    from k getitem_ncols [OF g] have "k < length (cols X_train)" by simp
    with tf(2) xs(2) have "cols (X_train_split t) ! k = (features ! k, map (\<lambda>i. xs ! i) idx)"
      by simp
    with xs(1) show "\<exists>xs. map_of (cols data_train) (features ! k) = Some xs
      \<and> cols (X_train_split t) ! k = (features ! k, map (\<lambda>i. xs ! i) idx)"
      by blast
  qed
  from c have fl: "filter is_fit (calls (scaler_after ev)) = [Fit_transform (X_train_split t)]"
    by simp
  from gt have tn: "nrows (X_test ev) = nrows data_test" by (rule getitem_nrows)
  from gt have tc: "length (cols (X_test ev)) = length features" by (rule getitem_ncols)
  have tcol: "\<forall>k<length features. \<exists>xs. map_of (cols data_test) (features ! k) = Some xs
      \<and> cols (X_test ev) ! k = (features ! k, xs)"
    using getitem_nth [OF gt] by blast
  have "n_test_of ?n = Inr n_test
    \<and> (?n \<le> 2 ^ 50 \<longrightarrow> n_test = (?n + 4) div 5)
    \<and> n_test < ?n
    \<and> idx = take (?n - n_test) (drop n_test (permutation lib ?n))
    \<and> length idx = ?n - n_test
    \<and> distinct idx
    \<and> set idx \<subseteq> {0..<?n}
    \<and> set idx \<inter> set (take n_test (permutation lib ?n)) = {}
    \<and> nrows (X_train_split t) = length idx
    \<and> length (cols (X_train_split t)) = length features
    \<and> (\<forall>k<length features. \<exists>xs. map_of (cols data_train) (features ! k) = Some xs
          \<and> cols (X_train_split t) ! k = (features ! k, map (\<lambda>i. xs ! i) idx))
    \<and> calls (scaler_after ev)
        = [Fit_transform (X_train_split t), Transform (X_valid_split t), Transform (X_test ev)]
    \<and> filter is_fit (calls (scaler_after ev)) = [Fit_transform (X_train_split t)]
    \<and> sc_fit lib (X_train_split t) = Inr p
    \<and> sc_apply lib p (X_train_split t) = Inr (X_train_scaled t)
    \<and> stats (scaler t) = Some p
    \<and> stats (scaler_after ev) = Some p
    \<and> nrows (X_test ev) = nrows data_test
    \<and> length (cols (X_test ev)) = length features
    \<and> (\<forall>k<length features. \<exists>xs. map_of (cols data_test) (features ! k) = Some xs
          \<and> cols (X_test ev) ! k = (features ! k, xs))
    \<and> sc_apply lib p (X_test ev) = Inr (X_test_scaled ev)"
    using nt' ex idx_def ps(2-5) tf(1) nc col c fl h tn tc tcol by (intro conjI)
  then show ?thesis by (intro exI)
qed

theorem scaler_fitted_once_on_training_split_witness:
  "train_and_evaluate sample_lib sample_csv sample_csv = Inr (sample_trained, sample_evaluated)
   \<and> distinct (permutation sample_lib (nrows sample_csv))
   \<and> set (permutation sample_lib (nrows sample_csv)) = {0..<nrows sample_csv}
   \<and> nrows sample_csv \<le> 2 ^ 50
   \<and> n_test_of (nrows sample_csv) = Inr 1
   \<and> nrows (X_train_split sample_trained) = 2
   \<and> cols (X_train_split sample_trained) ! 0 = (''MIP'', [Num (Fin 21), Num (Fin 20)])
   \<and> length (filter is_fit (calls (scaler_after sample_evaluated))) = 1
   \<and> stats (scaler_after sample_evaluated) = Some 6"
proof -
  have n: "nrows sample_csv = 3" by (simp add: sample_csv_def)
  have d: "distinct (permutation sample_lib (nrows sample_csv))" by (simp add: sample_lib_def)
  have s: "set (permutation sample_lib (nrows sample_csv)) = {0..<nrows sample_csv}"
    unfolding n by (auto simp: sample_lib_def)
  have le: "nrows sample_csv \<le> 2 ^ 50" by (simp add: n)
  from scaler_fitted_once_on_training_split [OF sample_run d s] obtain n_test idx p where
    a: "n_test_of (nrows sample_csv) = Inr n_test"
    and b: "nrows sample_csv \<le> 2 ^ 50 \<longrightarrow> n_test = (nrows sample_csv + 4) div 5"
    and i: "idx = take (nrows sample_csv - n_test)
        (drop n_test (permutation sample_lib (nrows sample_csv)))"
    and r: "nrows (X_train_split sample_trained) = length idx"
    and c: "\<forall>k<length features. \<exists>xs. map_of (cols sample_csv) (features ! k) = Some xs
          \<and> cols (X_train_split sample_trained) ! k = (features ! k, map (\<lambda>i. xs ! i) idx)"
    and f: "filter is_fit (calls (scaler_after sample_evaluated))
       = [Fit_transform (X_train_split sample_trained)]"
    and st: "stats (scaler sample_trained) = Some p"
      "stats (scaler_after sample_evaluated) = Some p"
    by (elim exE conjE)
  from b le have n1: "n_test = 1" by (simp add: n)
  with i have idx: "idx = [2, 0]" by (simp add: n sample_lib_def)
  have "0 < length features" by (simp add: features_def)
  with c obtain xs where "map_of (cols sample_csv) (features ! 0) = Some xs"
    "cols (X_train_split sample_trained) ! 0 = (features ! 0, map (\<lambda>i. xs ! i) idx)"
    by auto
  then have c0: "cols (X_train_split sample_trained) ! 0 = (''MIP'', [Num (Fin 21), Num (Fin 20)])"
    by (auto simp: features_def sample_csv_def idx)
  from sample_run d s le a n1 r idx c0 f st sample_scaler(1) show ?thesis by simp
qed

text \<open>
  C5. The feature list has six distinct names, all of them among the seven imported
  columns other than the target \<^verbatim>\<open>Solar_MW\<close>, which is not a feature. The tables given
  to the scaler's fit call and to each of its transform calls have exactly the feature
  list as their columns, in that order.
\<close>

theorem features_same_order_everywhere:
  assumes "train lib data_train = Inr t" and "evaluate lib (scaler t) data_test = Inr ev"
  shows "length features = 6 \<and> distinct features
    \<and> distinct columns \<and> target \<in> set columns
    \<and> length (filter (\<lambda>c. c \<noteq> target) columns) = 7
    \<and> set features \<subseteq> set (filter (\<lambda>c. c \<noteq> target) columns)
    \<and> target \<notin> set features
    \<and> calls (scaler_after ev)
        = [Fit_transform (X_train_split t), Transform (X_valid_split t), Transform (X_test ev)]
    \<and> colnames (X_train_split t) = features
    \<and> colnames (X_valid_split t) = features
    \<and> colnames (X_test ev) = features
    \<and> map (\<lambda>c. colnames (call_arg c)) (calls (scaler_after ev)) = [features, features, features]"
proof -
  have lits: "length features = 6" "distinct features" "distinct columns"
    "target \<in> set columns" "length (filter (\<lambda>c. c \<noteq> target) columns) = 7"
    "set features \<subseteq> set (filter (\<lambda>c. c \<noteq> target) columns)" "target \<notin> set features"
    by (simp_all add: features_def columns_def target_def)
  from scaler_history [OF assms] obtain X_train n_test where
    g: "getitem data_train features = Inr X_train"
    and tr: "take_rows X_train (train_idx lib (nrows X_train) n_test) = Inr (X_train_split t)"
    and va: "take_rows X_train (valid_idx lib (nrows X_train) n_test) = Inr (X_valid_split t)"
    and te: "getitem data_test features = Inr (X_test ev)"
    and c: "calls (scaler_after ev)
        = [Fit_transform (X_train_split t), Transform (X_valid_split t), Transform (X_test ev)]"
    by blast
  from g have n: "colnames X_train = features" by (rule getitem_colnames)
  from tr n have n1: "colnames (X_train_split t) = features" by (simp add: take_rows_colnames)
  from va n have n2: "colnames (X_valid_split t) = features" by (simp add: take_rows_colnames)
  from te have n3: "colnames (X_test ev) = features" by (rule getitem_colnames)
  from c n1 n2 n3 have
    "map (\<lambda>c. colnames (call_arg c)) (calls (scaler_after ev)) = [features, features, features]"
    by simp
  with lits c n1 n2 n3 show ?thesis by blast
qed

theorem features_same_order_everywhere_witness:
  "train sample_lib sample_csv = Inr sample_trained
   \<and> evaluate sample_lib (scaler sample_trained) sample_csv = Inr sample_evaluated
   \<and> colnames (X_train_split sample_trained) = features
   \<and> colnames (X_test sample_evaluated) = features
   \<and> target \<notin> set features"
  using features_same_order_everywhere [OF sample_train sample_evaluate]
    sample_train sample_evaluate
  by simp

section \<open>The dashboard callback\<close>

lemma map_of_keys: "k \<in> set (map fst ps) \<Longrightarrow> \<exists>v. map_of ps k = Some v"
  by (metis map_of_eq_None_iff not_Some_eq set_map)

text \<open>
  C4. After evaluation, for a model key among \<^verbatim>\<open>lr\<close>, \<^verbatim>\<open>rf\<close>, \<^verbatim>\<open>svm\<close>: with a click count
  above zero the callback returns a figure with exactly two traces, named
  \<^verbatim>\<open>Predicted\<close> and \<^verbatim>\<open>Actual\<close>, whose values are that model's stored predictions and the
  test target, and three texts made of that model's stored metrics, the first of which
  begins with \<^verbatim>\<open>RMSE:\<close>; with a click count of zero it returns the empty figure and three
  empty texts.
\<close>

theorem update_output_by_click_count:
  assumes "evaluate lib sc data_test = Inr ev" and "model_type \<in> set model_names"
  shows "(0 < n_clicks \<longrightarrow>
      (\<exists>preds m fig r s p.
          map_of (predictions ev) model_type = Some preds
        \<and> map_of (results ev) model_type = Some m
        \<and> update_output fmt ev n_clicks model_type = Inr (fig, r, s, p)
        \<and> map name (data fig) = [''Predicted'', ''Actual'']
        \<and> map ys_of (data fig) = [map Num preds, y_test ev]
        \<and> r = ''RMSE: '' @ fmt (RMSE m) \<and> s = ''MSE: '' @ fmt (MSE m)
        \<and> p = ''MAPE: '' @ fmt (MAPE m)
        \<and> take 5 r = ''RMSE:''))
    \<and> (n_clicks = 0 \<longrightarrow>
          update_output fmt ev n_clicks model_type = Inr (Figure, [], [], [])
        \<and> data Figure = [])"
proof -
  note k = evaluate_keys(1,2) [OF assms(1)]
  from assms(2) k(1) obtain preds where preds: "map_of (predictions ev) model_type = Some preds"
    using map_of_keys by metis
  from assms(2) k(2) obtain m where m: "map_of (results ev) model_type = Some m"
    using map_of_keys by metis
  have pos: "\<exists>fig r s p.
        update_output fmt ev n_clicks model_type = Inr (fig, r, s, p)
      \<and> map name (data fig) = [''Predicted'', ''Actual'']
      \<and> map ys_of (data fig) = [map Num preds, y_test ev]
      \<and> r = ''RMSE: '' @ fmt (RMSE m) \<and> s = ''MSE: '' @ fmt (MSE m)
      \<and> p = ''MAPE: '' @ fmt (MAPE m)
      \<and> take 5 r = ''RMSE:''"
    if "0 < n_clicks"
    using that preds m by (simp add: update_output_def Let_def)
  have zero: "update_output fmt ev n_clicks model_type = Inr (Figure, [], [], [])
      \<and> data Figure = []"
    if "n_clicks = 0"
    using that by (simp add: update_output_def Figure_def)
  show ?thesis
  proof (intro conjI impI)
    assume "0 < n_clicks"
    from pos [OF this] obtain fig r s p where
      "update_output fmt ev n_clicks model_type = Inr (fig, r, s, p)"
      "map name (data fig) = [''Predicted'', ''Actual'']"
      "map ys_of (data fig) = [map Num preds, y_test ev]"
      "r = ''RMSE: '' @ fmt (RMSE m)" "s = ''MSE: '' @ fmt (MSE m)"
      "p = ''MAPE: '' @ fmt (MAPE m)" "take 5 r = ''RMSE:''"
      by auto
    with preds m show "\<exists>preds m fig r s p.
          map_of (predictions ev) model_type = Some preds
        \<and> map_of (results ev) model_type = Some m
        \<and> update_output fmt ev n_clicks model_type = Inr (fig, r, s, p)
        \<and> map name (data fig) = [''Predicted'', ''Actual'']
        \<and> map ys_of (data fig) = [map Num preds, y_test ev]
        \<and> r = ''RMSE: '' @ fmt (RMSE m) \<and> s = ''MSE: '' @ fmt (MSE m)
        \<and> p = ''MAPE: '' @ fmt (MAPE m)
        \<and> take 5 r = ''RMSE:''"
      by (intro exI [of _ preds] exI [of _ m] exI [of _ fig] exI [of _ r] exI [of _ s]
          exI [of _ p] conjI)
  next
    assume "n_clicks = 0"
    from zero [OF this]
    show "update_output fmt ev n_clicks model_type = Inr (Figure, [], [], [])" by (rule conjunct1)
  next
    show "data Figure = []" by (simp add: Figure_def)
  qed
qed

theorem update_output_by_click_count_witness:
  "evaluate sample_lib (scaler sample_trained) sample_csv = Inr sample_evaluated
   \<and> ''rf'' \<in> set model_names
   \<and> (\<exists>fig r s p.
        update_output (\<lambda>v. ''?'') sample_evaluated 1 ''rf'' = Inr (fig, r, s, p)
      \<and> map name (data fig) = [''Predicted'', ''Actual''] \<and> take 5 r = ''RMSE:'')
   \<and> update_output (\<lambda>v. ''?'') sample_evaluated 0 ''rf'' = Inr (Figure, [], [], [])"
proof -
  have k: "''rf'' \<in> set model_names" by (simp add: model_names_def)
  note t = update_output_by_click_count [OF sample_evaluate k, of _ "\<lambda>v. ''?''"]
  have one: "(0::int) < 1" by simp
  from t [of 1, THEN conjunct1, THEN mp, OF one] obtain fig r s p where
    "update_output (\<lambda>v. ''?'') sample_evaluated 1 ''rf'' = Inr (fig, r, s, p)"
    "map name (data fig) = [''Predicted'', ''Actual'']" "take 5 r = ''RMSE:''"
    by auto
  then have a: "\<exists>fig r s p.
        update_output (\<lambda>v. ''?'') sample_evaluated 1 ''rf'' = Inr (fig, r, s, p)
      \<and> map name (data fig) = [''Predicted'', ''Actual''] \<and> take 5 r = ''RMSE:''"
    by auto
  from t [of 0, THEN conjunct2, THEN mp, OF refl] have b:
    "update_output (\<lambda>v. ''?'') sample_evaluated 0 ''rf'' = Inr (Figure, [], [], [])"
    by (rule conjunct1)
  from sample_evaluate k a b show ?thesis by simp
qed

section \<open>The End button\<close>

lemma end_button_not_an_input: "changed_prop (Click ''end-button'') \<notin> set callback_inputs"
  by (simp add: callback_inputs_def)

lemma dispatch_end_click:
  "dispatch fmt ev st (Click ''end-button'') = st\<lparr>end_n_clicks := end_n_clicks st + 1\<rparr>"
  using end_button_not_an_input by (simp add: dispatch_def)

lemma run_events_end_clicks:
  "run_events fmt ev st (replicate k (Click ''end-button''))
     = st\<lparr>end_n_clicks := end_n_clicks st + int k\<rparr>"
proof (induction k arbitrary: st)
  case 0
  then show ?case by simp
next
  case (Suc k)
  then show ?case by (simp add: dispatch_end_click add.assoc)
qed

text \<open>
  C9. The End button's click count is not among the inputs of the one registered
  callback. From any state of the page, any number of clicks on the End button leaves
  the figure and the three metric texts as they were (and the start count and the
  selected model too): only the End button's own click count changes.
\<close>

theorem end_button_has_no_effect:
  "(''end-button'', ''n_clicks'') \<notin> set callback_inputs
   \<and> outputs (run_events fmt ev st (replicate k (Click ''end-button''))) = outputs st
   \<and> prediction_graph (run_events fmt ev st (replicate k (Click ''end-button'')))
       = prediction_graph st
   \<and> rmse_display (run_events fmt ev st (replicate k (Click ''end-button''))) = rmse_display st
   \<and> mse_display (run_events fmt ev st (replicate k (Click ''end-button''))) = mse_display st
   \<and> mape_display (run_events fmt ev st (replicate k (Click ''end-button''))) = mape_display st
   \<and> start_n_clicks (run_events fmt ev st (replicate k (Click ''end-button'')))
       = start_n_clicks st
   \<and> model_selector (run_events fmt ev st (replicate k (Click ''end-button'')))
       = model_selector st
   \<and> run_events fmt ev st (replicate k (Click ''end-button''))
       = st\<lparr>end_n_clicks := end_n_clicks st + int k\<rparr>"
  by (simp add: run_events_end_clicks outputs_def callback_inputs_def)

theorem end_button_has_no_effect_witness:
  "outputs (run_events (\<lambda>v. ''?'') sample_evaluated
      (run_events (\<lambda>v. ''?'') sample_evaluated app_layout [Click ''start-button''])
      [Click ''end-button'', Click ''end-button''])
   = outputs (run_events (\<lambda>v. ''?'') sample_evaluated app_layout [Click ''start-button''])"
proof -
  have r: "replicate 2 (Click ''end-button'') = [Click ''end-button'', Click ''end-button'']"
    by (simp add: numeral_2_eq_2)
  from end_button_has_no_effect
    [of "\<lambda>v. ''?''" sample_evaluated
        "run_events (\<lambda>v. ''?'') sample_evaluated app_layout [Click ''start-button'']" 2,
     THEN conjunct2, THEN conjunct1]
  show ?thesis by (simp only: r)
qed

end
